theory Spec2Isabelle
  imports Complex_Main "HOL-Library.Sublist"
begin

section \<open>Python string primitives used by the scraper\<close>

text \<open>
  Python strings are modelled as \<open>string\<close> (lists of \<open>char\<close>); a character stands for
  the code point of the same number. Only the operations the two scripts call are
  modelled: \<open>str.find\<close>, slicing, \<open>str.replace\<close> of one character by nothing,
  \<open>str.strip\<close>, \<open>str.startswith\<close> (the library's \<open>prefix\<close>) and the \<open>in\<close> test on
  strings (the library's \<open>sublist\<close>, decided by \<open>str_contains\<close> below).
\<close>

text \<open>\<open>find_idx sub s i\<close>: the lowest index of an occurrence of \<open>sub\<close> in \<open>s\<close>, counted
  from \<open>i\<close> for the head of \<open>s\<close>, or \<open>-1\<close>.\<close>

fun find_idx :: "string \<Rightarrow> string \<Rightarrow> nat \<Rightarrow> int" where
  "find_idx sub [] i = (if sub = [] then int i else -1)"
| "find_idx sub (c # cs) i = (if prefix sub (c # cs) then int i else find_idx sub cs (Suc i))"

text \<open>A slice bound as Python clamps it: a negative bound counts from the end.\<close>

definition clamp_index :: "nat \<Rightarrow> int \<Rightarrow> nat" where
  "clamp_index n i = (if i < 0 then nat (max 0 (int n + i)) else min n (nat i))"

text \<open>\<open>s.find(sub, start)\<close>.\<close>

definition str_find :: "string \<Rightarrow> string \<Rightarrow> int \<Rightarrow> int" where
  "str_find s sub start =
     (if start > int (length s) then -1
      else let k = clamp_index (length s) start in find_idx sub (drop k s) k)"

text \<open>\<open>s[a:b]\<close>.\<close>

definition slice :: "string \<Rightarrow> int \<Rightarrow> int \<Rightarrow> string" where
  "slice s a b = drop (clamp_index (length s) a) (take (clamp_index (length s) b) s)"

text \<open>\<open>s[a:]\<close>.\<close>

definition slice_from :: "string \<Rightarrow> int \<Rightarrow> string" where
  "slice_from s a = drop (clamp_index (length s) a) s"

text \<open>\<open>sub in s\<close>.\<close>

definition str_contains :: "string \<Rightarrow> string \<Rightarrow> bool" where
  "str_contains sub s = (find_idx sub s 0 \<noteq> -1)"

text \<open>\<open>s.replace(c, "")\<close> for a one-character string \<open>c\<close>.\<close>

definition remove_char :: "char \<Rightarrow> string \<Rightarrow> string" where
  "remove_char c s = filter (\<lambda>x. x \<noteq> c) s"

text \<open>The characters \<open>str.strip()\<close> removes and \<open>\s\<close> matches: Python's whitespace below
  code point 256 (tab, line feed, vertical tab, form feed, carriage return, the four
  separators 28 to 31, space, next line 133 and no-break space 160).\<close>

definition is_space :: "char \<Rightarrow> bool" where
  "is_space c = (let n = of_char c :: nat in
     (9 \<le> n \<and> n \<le> 13) \<or> (28 \<le> n \<and> n \<le> 32) \<or> n = 133 \<or> n = 160)"

definition strip :: "string \<Rightarrow> string" where
  "strip s = rev (dropWhile is_space (rev (dropWhile is_space s)))"

section \<open>Site profiles\<close>

definition PROBLEM_WORD_COUNT_NOT_FOUND :: string where
  "PROBLEM_WORD_COUNT_NOT_FOUND = ''word count not found''"

definition SV_start_text :: string where
  "SV_start_text = ''Statistics (''"

definition SV_end_text :: string where
  "SV_end_text = ''words''"

text \<open>\<open>SV.get_word_count_text\<close>. The warning printed for a token shorter than five
  characters does not change the result and is left out.\<close>

definition SV_get_word_count_text :: "string \<Rightarrow> string" where
  "SV_get_word_count_text threadmark_text =
     (let start = str_find threadmark_text SV_start_text 0 in
      if start = -1 then PROBLEM_WORD_COUNT_NOT_FOUND
      else
        let end = str_find threadmark_text SV_end_text start in
        if end = -1 then PROBLEM_WORD_COUNT_NOT_FOUND
        else
          let wc_text = slice threadmark_text (start + int (length SV_start_text)) end in
          if wc_text = [] then PROBLEM_WORD_COUNT_NOT_FOUND
          else wc_text)"


section \<open>Regular expressions\<close>

text \<open>
  The two patterns of the repository use character classes, literals, groups, \<open>?\<close> and
  the repetitions \<open>*\<close>, \<open>+\<close> and \<open>+?\<close> of a single character class. \<open>rx_match r (g, s)\<close>
  lists, in the order a backtracking matcher tries them, the ways \<open>r\<close> matches at the
  head of \<open>s\<close>: each with the groups captured so far and the text left over.
\<close>

datatype rx =
    Eps
  | Atom "char \<Rightarrow> bool"
  | Seq rx rx
  | Opt rx
  | Star "char \<Rightarrow> bool"
  | Plus "char \<Rightarrow> bool"
  | LazyPlus "char \<Rightarrow> bool"
  | Group nat rx

type_synonym groups = "nat \<rightharpoonup> string"

fun rx_match :: "rx \<Rightarrow> groups \<times> string \<Rightarrow> (groups \<times> string) list" where
  "rx_match Eps st = [st]"
| "rx_match (Atom p) (g, s) = (case s of [] \<Rightarrow> [] | c # cs \<Rightarrow> if p c then [(g, cs)] else [])"
| "rx_match (Seq a b) st = concat (map (rx_match b) (rx_match a st))"
| "rx_match (Opt a) st = rx_match a st @ [st]"
| "rx_match (Star p) (g, s) =
     map (\<lambda>k. (g, drop k s)) (rev [0 ..< Suc (length (takeWhile p s))])"
| "rx_match (Plus p) (g, s) =
     map (\<lambda>k. (g, drop k s)) (rev [1 ..< Suc (length (takeWhile p s))])"
| "rx_match (LazyPlus p) (g, s) =
     map (\<lambda>k. (g, drop k s)) [1 ..< Suc (length (takeWhile p s))]"
| "rx_match (Group n a) (g, s) =
     map (\<lambda>(g', s'). (g'(n \<mapsto> take (length s - length s') s), s')) (rx_match a (g, s))"

text \<open>A literal string.\<close>

fun Lit :: "string \<Rightarrow> rx" where
  "Lit [] = Eps"
| "Lit (c # cs) = Seq (Atom (\<lambda>x. x = c)) (Lit cs)"

text \<open>\<open>pattern.match(s)\<close>: the first way to match at the start of \<open>s\<close>.\<close>

definition re_match :: "rx \<Rightarrow> string \<Rightarrow> groups option" where
  "re_match r s = (case rx_match r (Map.empty, s) of [] \<Rightarrow> None | (g, _) # _ \<Rightarrow> Some g)"

text \<open>\<open>re.search(pattern, s)\<close>: the first way to match at the leftmost position that has one.\<close>

fun re_search :: "rx \<Rightarrow> string \<Rightarrow> groups option" where
  "re_search r [] = re_match r []"
| "re_search r (c # cs) =
     (case re_match r (c # cs) of None \<Rightarrow> re_search r cs | Some g \<Rightarrow> Some g)"

text \<open>\<open>match.group(n)\<close> inside an f-string: a group that took no part prints as \<open>None\<close>.\<close>

definition group_str :: "groups \<Rightarrow> nat \<Rightarrow> string" where
  "group_str g n = (case g n of None \<Rightarrow> ''None'' | Some v \<Rightarrow> v)"

text \<open>The classes \<open>\d\<close>, \<open>\w\<close> and \<open>.\<close> on code points below 256 (\<open>\s\<close> is \<open>is_space\<close>).\<close>

definition is_digit :: "char \<Rightarrow> bool" where
  "is_digit c = (let n = of_char c :: nat in 48 \<le> n \<and> n \<le> 57)"

definition is_word :: "char \<Rightarrow> bool" where
  "is_word c = (let n = of_char c :: nat in
     (48 \<le> n \<and> n \<le> 57) \<or> (65 \<le> n \<and> n \<le> 90) \<or> n = 95 \<or> (97 \<le> n \<and> n \<le> 122) \<or>
     n = 170 \<or> n = 178 \<or> n = 179 \<or> n = 181 \<or> n = 185 \<or> n = 186 \<or>
     (188 \<le> n \<and> n \<le> 190) \<or> (192 \<le> n \<and> n \<le> 214) \<or> (216 \<le> n \<and> n \<le> 246) \<or>
     (248 \<le> n \<and> n \<le> 255))"

definition newline :: char where
  "newline = CHR 0x0A"

definition tab :: char where
  "tab = CHR 0x09"

definition is_dot :: "char \<Rightarrow> bool" where
  "is_dot c = (c \<noteq> newline)"

subsection \<open>The second site\<close>

definition QQ_start_text :: string where
  "QQ_start_text = ''Statistics (''"

text \<open>\<open>\t*((?:\d+,)?\d+[\s\w]+), Word Count: (\d+\.?\d+[kKmM]?)\<close>\<close>

definition QQ_threadmark_pattern :: rx where
  "QQ_threadmark_pattern =
     Seq (Star (\<lambda>c. c = tab))
    (Seq (Group 1
            (Seq (Opt (Seq (Plus is_digit) (Atom (\<lambda>c. c = CHR '',''))))
            (Seq (Plus is_digit) (Plus (\<lambda>c. is_space c \<or> is_word c)))))
    (Seq (Lit '', Word Count: '')
         (Group 2
            (Seq (Plus is_digit)
            (Seq (Opt (Atom (\<lambda>c. c = CHR ''.'')))
            (Seq (Plus is_digit)
                 (Opt (Atom (\<lambda>c. c \<in> set ''kKmM'')))))))))"

text \<open>\<open>QQ.get_word_count_text\<close>\<close>

definition QQ_get_word_count_text :: "string \<Rightarrow> string" where
  "QQ_get_word_count_text threadmark_text =
     (let start = str_find threadmark_text QQ_start_text 0 in
      if start = -1 then PROBLEM_WORD_COUNT_NOT_FOUND
      else
        let cur_text = slice_from threadmark_text (start + int (length QQ_start_text)) in
        case re_search QQ_threadmark_pattern cur_text of
          None \<Rightarrow> PROBLEM_WORD_COUNT_NOT_FOUND
        | Some m \<Rightarrow> group_str m 1 @ '', '' @ group_str m 2)"

section \<open>The companion filter\<close>

text \<open>\<open>^.+?\|https?://.+?\<close>; the pattern is applied with \<open>match\<close>, which anchors it at
  the start of the line as \<open>^\<close> does.\<close>

definition cleanup_pattern :: rx where
  "cleanup_pattern =
     Seq (LazyPlus is_dot)
    (Seq (Atom (\<lambda>c. c = CHR ''|''))
    (Seq (Lit ''http'')
    (Seq (Opt (Atom (\<lambda>c. c = CHR ''s'')))
    (Seq (Lit ''://'')
         (LazyPlus is_dot)))))"

text \<open>\<open>cleanup_output\<close>, from the lines \<open>readlines\<close> returns to the strings written.\<close>

definition cleanup_output :: "string list \<Rightarrow> string list" where
  "cleanup_output lines =
     map (\<lambda>line. strip line @ [newline])
       (filter (\<lambda>line. re_match cleanup_pattern line \<noteq> None) lines)"


section \<open>Threads and the index page\<close>

record thread =
  name :: string
  url :: string
  word_count :: string

text \<open>\<open>Thread(name, url)\<close>: the word count defaults to \<open>"-1"\<close>.\<close>

definition Thread :: "string \<Rightarrow> string \<Rightarrow> thread" where
  "Thread n u = \<lparr>name = n, url = u, word_count = ''-1''\<rparr>"

text \<open>An \<open>a\<close> element as the HTML parser hands it over: its text, and its \<open>href\<close>
  attribute (\<open>link.get('href')\<close> is \<open>None\<close> when the attribute is missing).\<close>

record anchor =
  anchor_text :: string
  anchor_href :: "string option"

definition urls_to_ignore :: "string list" where
  "urls_to_ignore = [''/threads/rules-terms-of-service'']"

text \<open>\<open>Scraper._is_link_useful\<close>. The link text is always a string here (the result of
  \<open>str.replace\<close>), so its \<open>None\<close> tests have no branch.\<close>

definition is_link_useful :: "string option \<Rightarrow> string \<Rightarrow> bool" where
  "is_link_useful link_raw link_text_raw =
     (case link_raw of
        None \<Rightarrow> False
      | Some l \<Rightarrow>
          if l = [] \<or> link_text_raw = [] then False
          else
            let link = strip l; link_text = strip link_text_raw in
            if \<not> prefix ''http'' link \<or> link \<in> set urls_to_ignore
               \<or> link_text = []
               \<or> str_contains ''Sufficiently Velocity'' link_text
               \<or> str_contains ''into a problem'' link_text
            then False
            else True)"

text \<open>The loop of \<open>Scraper.parse_index_page\<close> over the anchors of the page: \<open>start\<close> is
  the loop's flag and \<open>threads\<close> the list collected so far. A useful link has an
  \<open>href\<close>, so the \<open>None\<close> case of the append is never reached.\<close>

fun scan_links :: "string \<Rightarrow> string \<Rightarrow> bool \<Rightarrow> anchor list \<Rightarrow> thread list \<Rightarrow> thread list" where
  "scan_links start_link end_link start [] threads = threads"
| "scan_links start_link end_link start (link # links) threads =
     (if anchor_text link = start_link then scan_links start_link end_link True links threads
      else
        let link_text = remove_char (CHR ''|'') (anchor_text link) in
        if \<not> start \<or> \<not> is_link_useful (anchor_href link) link_text
        then scan_links start_link end_link start links threads
        else
          case anchor_href link of
            None \<Rightarrow> scan_links start_link end_link start links threads
          | Some h \<Rightarrow>
              let threads' = threads @ [Thread link_text h] in
              if link_text = end_link then threads'
              else scan_links start_link end_link start links threads')"

text \<open>\<open>Scraper.parse_index_page\<close>, given the anchors \<open>soup.find_all('a')\<close> found on the
  fetched page.\<close>

definition parse_index_page ::
  "anchor list \<Rightarrow> string \<Rightarrow> string \<Rightarrow> thread list option \<Rightarrow> thread list" where
  "parse_index_page links start_link end_link prev_threads =
     (let threads = scan_links start_link end_link False links [] in
      case prev_threads of None \<Rightarrow> threads | Some prev \<Rightarrow> prev @ threads)"

section \<open>The rate estimator\<close>

text \<open>Wall-clock times, the rate and the time left are rationals, computed exactly. The
  source computes them in binary floating point: there a quotient is rounded, so the
  rate and the time left that are printed can differ from the exact ones by the
  rounding, and \<open>int\<close> of an infinite quotient raises. What is written to the window and
  to the flag does not depend on these quotients.\<close>

record RateLimitPoint =
  time :: rat
  requests :: int

text \<open>The fields of a \<open>Scraper\<close> that change during a run, and two records of its
  environment: how many requests were sent so far, and the errors
  \<open>retrieve_word_counts\<close> printed (the thread's url and the exception).\<close>

datatype exn =
    Exception404 string
  | OtherError int
  | ZeroDivisionError
  | RequestException

record scraper =
  rate_limited :: bool
  rate_calc :: "RateLimitPoint list"
  requests_sent :: nat
  errors_printed :: "(string \<times> exn) list"

text \<open>\<open>Scraper.__init__\<close>\<close>

definition new_scraper :: scraper where
  "new_scraper = \<lparr>rate_limited = False, rate_calc = [], requests_sent = 0, errors_printed = []\<rparr>"

text \<open>The decimal digits of a natural number, and \<open>f"{n:02d}"\<close>.\<close>

fun dec :: "nat \<Rightarrow> string" where
  "dec n = (if n < 10 then [''0123456789'' ! n] else dec (n div 10) @ [''0123456789'' ! (n mod 10)])"

declare dec.simps [simp del]

definition fmt_02d :: "int \<Rightarrow> string" where
  "fmt_02d n =
     (if n < 0 then CHR ''-'' # dec (nat (- n))
      else if n < 10 then CHR ''0'' # dec (nat n)
      else dec (nat n))"

text \<open>\<open>Scraper.fmt_sec\<close>\<close>

definition fmt_sec :: "int \<Rightarrow> string" where
  "fmt_sec sec =
     (let m = sec div 60; s = sec mod 60;
          h = m div 60; m = m mod 60
      in fmt_02d h @ '':'' @ fmt_02d m @ '':'' @ fmt_02d s)"

text \<open>\<open>int(x)\<close>: rounding towards zero.\<close>

definition py_int :: "rat \<Rightarrow> int" where
  "py_int x = (if x < 0 then \<lceil>x\<rceil> else \<lfloor>x\<rfloor>)"

text \<open>\<open>Scraper.hit_rate_limit\<close>, with the reading \<open>now\<close> of \<open>time.time()\<close>. The result
  is the exception raised, or what the call printed: nothing (\<open>None\<close>), or the rate
  and the formatted time left. A division by zero raises after the window was updated.
  The window holds the new sample at least, so its first and last elements exist.\<close>

definition hit_rate_limit ::
  "rat \<Rightarrow> int \<Rightarrow> int \<Rightarrow> scraper \<Rightarrow> (exn + (rat \<times> string) option) \<times> scraper" where
  "hit_rate_limit now p_cur p_max s =
     (if \<not> rate_limited s then
        (Inr None, s\<lparr>rate_limited := True, rate_calc := [\<lparr>time = now, requests = p_cur\<rparr>]\<rparr>)
      else
        let appended = rate_calc s @ [\<lparr>time = now, requests = p_cur\<rparr>];
            window = (if length appended > 5 then tl appended else appended);
            s' = s\<lparr>rate_calc := window\<rparr>;
            dr = requests (last window) - requests (hd window);
            dt = time (last window) - time (hd window)
        in
          if dt = 0 then (Inl ZeroDivisionError, s')
          else
            let rate = of_int dr / dt in
            if rate = 0 then (Inl ZeroDivisionError, s')
            else
              let eta = of_int (p_max - p_cur) / rate in
              (Inr (Some (rate, fmt_sec (py_int eta))), s'))"


section \<open>Fetching the word counts\<close>

text \<open>The two sites that can be instantiated (\<open>SB\<close> does not implement the abstract
  method), and what the scraper reads of a site.\<close>

datatype site = SV | QQ

text \<open>\<open>site.url_pattern.format(thread_url)\<close>\<close>

definition url_pattern :: "site \<Rightarrow> string \<Rightarrow> string" where
  "url_pattern st thread_url =
     (case st of SV \<Rightarrow> thread_url @ ''/threadmarks''
               | QQ \<Rightarrow> thread_url @ ''/threadmarks?category_id=1'')"

definition error_text :: "site \<Rightarrow> string" where
  "error_text st = ''Oops! We ran into some problems.''"

definition get_word_count_text :: "site \<Rightarrow> string \<Rightarrow> string" where
  "get_word_count_text st threadmark_text =
     (case st of SV \<Rightarrow> SV_get_word_count_text threadmark_text
               | QQ \<Rightarrow> QQ_get_word_count_text threadmark_text)"

text \<open>What \<open>requests.get\<close> returns: the status code, and the text \<open>soup.get_text()\<close>
  extracts from the content.\<close>

record response =
  status_code :: int
  page_text :: string

text \<open>The network answers the \<open>n\<close>-th request of the run, for a url, with a response, or
  \<open>requests.get\<close> raises (\<open>None\<close>). The clock gives the reading of \<open>time.time()\<close> while
  that request is handled.\<close>

type_synonym network = "nat \<Rightarrow> string \<Rightarrow> response option"
type_synonym clock = "nat \<Rightarrow> rat"

text \<open>One pass through the body of the \<open>while True\<close> loop of \<open>Scraper.get_word_count\<close>:
  it finishes the call (\<open>Inl\<close>: the exception raised or the string returned, and the
  state), or goes round again (\<open>Inr\<close>). On status 429 it does what
  \<open>Scraper.status_code_429\<close> does: it calls the throttle handler, whose exception ends the
  call; the progress line it prints and the sleep that follows leave no trace in the state.\<close>

definition attempt ::
  "site \<Rightarrow> network \<Rightarrow> clock \<Rightarrow> string \<Rightarrow> int \<Rightarrow> int \<Rightarrow> scraper
     \<Rightarrow> ((exn + string) \<times> scraper) + scraper" where
  "attempt st net clk full_url p_cur p_max s =
     (let n = requests_sent s; s1 = s\<lparr>requests_sent := Suc n\<rparr> in
      case net n full_url of
        None \<Rightarrow> Inl (Inl RequestException, s1)
      | Some page \<Rightarrow>
          if status_code page = 404 then Inl (Inl (Exception404 full_url), s1)
          else if status_code page = 429 then
            (case hit_rate_limit (clk n) p_cur p_max s1 of
               (Inl e, s2) \<Rightarrow> Inl (Inl e, s2)
             | (Inr _, s2) \<Rightarrow> Inr s2)
          else
            let text = remove_char newline (page_text page) in
            if str_contains (error_text st) text
            then Inl (Inl (OtherError (status_code page)), s1)
            else Inl (Inr (get_word_count_text st text), s1))"

text \<open>The quantity that goes down on every round of the loop: the window of the
  estimator fills up with samples of the same request index, and then the rate is zero.\<close>

definition stale :: "int \<Rightarrow> RateLimitPoint list \<Rightarrow> nat" where
  "stale p_cur w = length (dropWhile (\<lambda>p. requests p = p_cur) (rev w))"

definition rounds_left :: "int \<Rightarrow> scraper \<Rightarrow> nat" where
  "rounds_left p_cur s =
     (if \<not> rate_limited s then 5 else stale p_cur (rate_calc s) + (5 - length (rate_calc s)))"


text \<open>The \<open>while True\<close> loop of \<open>Scraper.get_word_count\<close>. It is total: every round that
  does not finish the call lowers \<open>rounds_left\<close>.\<close>

function get_word_count_loop ::
  "site \<Rightarrow> network \<Rightarrow> clock \<Rightarrow> string \<Rightarrow> int \<Rightarrow> int \<Rightarrow> scraper \<Rightarrow> (exn + string) \<times> scraper" where
  "get_word_count_loop st net clk full_url p_cur p_max s =
     (case attempt st net clk full_url p_cur p_max s of
        Inl finished \<Rightarrow> finished
      | Inr s' \<Rightarrow> get_word_count_loop st net clk full_url p_cur p_max s')"
  by pat_completeness auto
termination
proof (relation "measure (\<lambda>(st, net, clk, full_url, p_cur, p_max, s). rounds_left p_cur s)")
  show "wf (measure (\<lambda>(st, net, clk, full_url, p_cur, p_max, s). rounds_left p_cur s))"
    by simp
next
  fix st :: site and net :: network and clk :: clock and full_url :: string
    and p_cur p_max :: int and s s' :: scraper
  assume retry: "attempt st net clk full_url p_cur p_max s = Inr s'"
  define s1 where "s1 = s\<lparr>requests_sent := Suc (requests_sent s)\<rparr>"
  define pt where "pt = \<lparr>time = clk (requests_sent s), requests = p_cur\<rparr>"
  define w where "w = rate_calc s1"
  define win where "win = (if length (w @ [pt]) > 5 then tl (w @ [pt]) else w @ [pt])"
  have stale_same: "stale c (v @ [p]) = stale c v" if "requests p = c" for c v p
    using that by (simp add: stale_def)
  have stale_more: "stale c (x # v) = Suc (stale c v)" if "\<exists>q\<in>set v. requests q \<noteq> c" for c x v
    using that by (auto simp: stale_def dropWhile_append)
  from retry obtain r where
    hit: "hit_rate_limit (clk (requests_sent s)) p_cur p_max s1 = (Inr r, s')"
    by (auto simp: attempt_def Let_def s1_def split: option.splits if_splits prod.splits sum.splits)
  have "rounds_left p_cur s' < rounds_left p_cur s1"
  proof (cases "rate_limited s1")
    case False
    with hit show ?thesis
      by (auto simp: hit_rate_limit_def rounds_left_def stale_def)
  next
    case True
    have s': "rate_calc s' = win" "rate_limited s'"
      and ne: "requests (hd win) \<noteq> requests (last win)"
      using hit True
      by (auto simp: hit_rate_limit_def Let_def pt_def w_def win_def split: if_splits)
    have lastw: "requests (last win) = p_cur"
      by (cases w) (auto simp: win_def pt_def)
    show ?thesis
    proof (cases "length (w @ [pt]) > 5")
      case False
      then have "win = w @ [pt]" by (simp add: win_def)
      with False s' True show ?thesis
        by (simp add: rounds_left_def w_def [symmetric] stale_same pt_def)
    next
      case long: True
      then obtain x w' where w: "w = x # w'" by (cases w) auto
      with long have win: "win = w' @ [pt]" and w'ne: "w' \<noteq> []" by (auto simp: win_def)
      then have "hd win = hd w'" by simp
      with ne lastw have "requests (hd w') \<noteq> p_cur" by simp
      with w'ne have "\<exists>q\<in>set w'. requests q \<noteq> p_cur" by (metis hd_in_set)
      then have "stale p_cur w = Suc (stale p_cur w')" unfolding w by (rule stale_more)
      with s' True win w show ?thesis
        by (simp add: rounds_left_def w_def [symmetric] stale_same pt_def)
    qed
  qed
  also have "rounds_left p_cur s1 = rounds_left p_cur s"
    by (simp add: rounds_left_def s1_def)
  finally show "((st, net, clk, full_url, p_cur, p_max, s'), (st, net, clk, full_url, p_cur, p_max, s))
      \<in> measure (\<lambda>(st, net, clk, full_url, p_cur, p_max, s). rounds_left p_cur s)"
    by simp
qed

declare get_word_count_loop.simps [simp del]

text \<open>\<open>Scraper.get_word_count\<close>: the exception raised (\<open>Inl\<close>) or the string returned.\<close>

definition get_word_count ::
  "site \<Rightarrow> network \<Rightarrow> clock \<Rightarrow> thread \<Rightarrow> int \<Rightarrow> int \<Rightarrow> scraper \<Rightarrow> (exn + string) \<times> scraper" where
  "get_word_count st net clk thread p_cur p_max s =
     (let full_url = url_pattern st (url thread) in
      get_word_count_loop st net clk full_url p_cur p_max s)"

text \<open>The loop of \<open>Scraper.retrieve_word_counts\<close> from index \<open>i\<close> on, with
  \<open>p_max = len(threads)\<close>: the threads as the loop leaves them, and the state. An
  exception is printed and the loop goes on to the next thread.\<close>

fun retrieve_loop ::
  "site \<Rightarrow> network \<Rightarrow> clock \<Rightarrow> int \<Rightarrow> nat \<Rightarrow> thread list \<Rightarrow> scraper \<Rightarrow> thread list \<times> scraper" where
  "retrieve_loop st net clk p_max i [] s = ([], s)"
| "retrieve_loop st net clk p_max i (thread # threads) s =
     (case get_word_count st net clk thread (int i + 1) p_max s of
        (Inl e, s1) \<Rightarrow>
          let s2 = s1\<lparr>errors_printed := errors_printed s1 @ [(url thread, e)]\<rparr>;
              (rest, s3) = retrieve_loop st net clk p_max (Suc i) threads s2
          in (thread # rest, s3)
      | (Inr wc, s1) \<Rightarrow>
          let thread1 = thread\<lparr>word_count := wc\<rparr>;
              thread2 = thread1\<lparr>name := remove_char newline (name thread1)\<rparr>;
              thread3 = thread2\<lparr>word_count := remove_char newline (word_count thread2)\<rparr>;
              (rest, s3) = retrieve_loop st net clk p_max (Suc i) threads s1
          in (thread3 # rest, s3))"

text \<open>\<open>Scraper.retrieve_word_counts\<close>\<close>

definition retrieve_word_counts ::
  "site \<Rightarrow> network \<Rightarrow> clock \<Rightarrow> thread list \<Rightarrow> scraper \<Rightarrow> thread list \<times> scraper" where
  "retrieve_word_counts st net clk threads s =
     retrieve_loop st net clk (int (length threads)) 0 threads s"

text \<open>The line written for a thread: \<open>f"{thread.name}|{thread.url}|{thread.word_count}\n"\<close>
  without its final line feed.\<close>

definition output_record :: "thread \<Rightarrow> string" where
  "output_record t = name t @ ''|'' @ url t @ ''|'' @ word_count t"

section \<open>Notions used to state the properties\<close>

subsection \<open>Runs of the throttle handler\<close>

text \<open>A run of calls of the throttle handler, each with its clock reading, progress index
  and maximum, and the sample each call records.\<close>

definition sample :: "rat \<times> int \<times> int \<Rightarrow> RateLimitPoint" where
  "sample c = (case c of (now, p_cur, p_max) \<Rightarrow> \<lparr>time = now, requests = p_cur\<rparr>)"

fun throttles :: "(rat \<times> int \<times> int) list \<Rightarrow> scraper \<Rightarrow> scraper" where
  "throttles [] s = s"
| "throttles ((now, p_cur, p_max) # calls) s =
     throttles calls (snd (hit_rate_limit now p_cur p_max s))"

text \<open>Six throttles, five seconds apart.\<close>

definition six_calls :: "(rat \<times> int \<times> int) list" where
  "six_calls = [(0, 1, 9), (5, 2, 9), (10, 3, 9), (15, 4, 9), (20, 5, 9), (25, 6, 9)]"

subsection \<open>What the index enumeration collects\<close>

text \<open>The name a thread gets, the anchors the loop collects while it is active, the
  threads made of them, the cut after the end marker, and the anchors after the
  start marker.\<close>

definition link_name :: "anchor \<Rightarrow> string" where
  "link_name a = remove_char (CHR ''|'') (anchor_text a)"

definition candidate :: "string \<Rightarrow> anchor \<Rightarrow> bool" where
  "candidate start_link a =
     (anchor_text a \<noteq> start_link \<and> is_link_useful (anchor_href a) (link_name a))"

definition threads_of :: "anchor list \<Rightarrow> thread list" where
  "threads_of links =
     concat (map (\<lambda>a. case anchor_href a of None \<Rightarrow> [] | Some h \<Rightarrow> [Thread (link_name a) h]) links)"

definition upto_end :: "string \<Rightarrow> thread list \<Rightarrow> thread list" where
  "upto_end end_link ts =
     takeWhile (\<lambda>t. name t \<noteq> end_link) ts @ take 1 (dropWhile (\<lambda>t. name t \<noteq> end_link) ts)"

definition after_start :: "string \<Rightarrow> anchor list \<Rightarrow> anchor list" where
  "after_start start_link links = tl (dropWhile (\<lambda>a. anchor_text a \<noteq> start_link) links)"

text \<open>The anchors of the end-to-end scenario.\<close>

definition example_links :: "anchor list" where
  "example_links =
     [\<lparr>anchor_text = ''skip-me'', anchor_href = Some ''x''\<rparr>,
      \<lparr>anchor_text = ''Start'', anchor_href = Some ''http://a''\<rparr>,
      \<lparr>anchor_text = ''Keep'', anchor_href = Some ''http://b''\<rparr>,
      \<lparr>anchor_text = ''End'', anchor_href = Some ''http://c''\<rparr>,
      \<lparr>anchor_text = ''ignored'', anchor_href = Some ''http://d''\<rparr>]"

text \<open>An index page whose end-marker anchor has a relative \<open>href\<close>.\<close>

definition late_links :: "anchor list" where
  "late_links =
     [\<lparr>anchor_text = ''skip-me'', anchor_href = Some ''http://x''\<rparr>,
      \<lparr>anchor_text = ''Start'', anchor_href = Some ''http://a''\<rparr>,
      \<lparr>anchor_text = ''Keep'', anchor_href = Some ''http://b''\<rparr>,
      \<lparr>anchor_text = ''End'', anchor_href = Some ''/threads/c''\<rparr>,
      \<lparr>anchor_text = ''Later'', anchor_href = Some ''http://d''\<rparr>,
      \<lparr>anchor_text = ''Footer'', anchor_href = None\<rparr>,
      \<lparr>anchor_text = ''Last'', anchor_href = Some ''http://e''\<rparr>]"

text \<open>An \<open>href\<close> with an HTTP scheme, in the words of the specification, and an index
  page with an \<open>href\<close> that starts with \<open>http\<close> without having one, and with the absolute
  link to the terms of service.\<close>

definition has_http_scheme :: "string \<Rightarrow> bool" where
  "has_http_scheme h = (prefix ''http://'' h \<or> prefix ''https://'' h)"

definition loose_links :: "anchor list" where
  "loose_links =
     [\<lparr>anchor_text = ''Start'', anchor_href = Some ''http://s''\<rparr>,
      \<lparr>anchor_text = ''Keep'', anchor_href = Some ''httpx''\<rparr>,
      \<lparr>anchor_text = ''Terms'',
        anchor_href = Some ''https://forums.sufficientvelocity.com/threads/rules-terms-of-service''\<rparr>,
      \<lparr>anchor_text = ''End'', anchor_href = Some ''http://c''\<rparr>]"

subsection \<open>The fetches of a run, and an example crawl\<close>

text \<open>A thread after a successful fetch; the state in which the loop reaches thread \<open>k\<close>;
  and what the fetch of thread \<open>k\<close> raises or returns there.\<close>

definition populated :: "thread \<Rightarrow> string \<Rightarrow> thread" where
  "populated t wc = t\<lparr>name := remove_char newline (name t), word_count := remove_char newline wc\<rparr>"

definition state_before ::
  "site \<Rightarrow> network \<Rightarrow> clock \<Rightarrow> thread list \<Rightarrow> scraper \<Rightarrow> nat \<Rightarrow> scraper" where
  "state_before st net clk threads s k =
     snd (retrieve_loop st net clk (int (length threads)) 0 (take k threads) s)"

definition fetch_result ::
  "site \<Rightarrow> network \<Rightarrow> clock \<Rightarrow> thread list \<Rightarrow> scraper \<Rightarrow> nat \<Rightarrow> exn + string" where
  "fetch_result st net clk threads s k =
     fst (get_word_count st net clk (threads ! k) (int k + 1) (int (length threads))
            (state_before st net clk threads s k))"

text \<open>A crawl of three threads: the first is not found, the second has a vertical bar in
  its anchor text and a line feed at the end of its \<open>href\<close>, and the page text has a line
  feed inside the statistics. A second network throttles the second request of the run.\<close>

definition crawl_links :: "anchor list" where
  "crawl_links =
     [\<lparr>anchor_text = ''Start'', anchor_href = Some ''http://s''\<rparr>,
      \<lparr>anchor_text = ''Lost'' @ [newline] @ ''Story'', anchor_href = Some ''http://a''\<rparr>,
      \<lparr>anchor_text = ''Kept|Story'', anchor_href = Some (''http://b'' @ [newline])\<rparr>,
      \<lparr>anchor_text = ''End'', anchor_href = Some ''http://c''\<rparr>]"

definition crawl_threads :: "thread list" where
  "crawl_threads =
     [Thread (''Lost'' @ [newline] @ ''Story'') ''http://a'',
      Thread ''KeptStory'' (''http://b'' @ [newline]),
      Thread ''End'' ''http://c'']"

definition crawl_net :: network where
  "crawl_net n u =
     (if u = ''http://a/threadmarks'' then Some \<lparr>status_code = 404, page_text = []\<rparr>
      else Some \<lparr>status_code = 200,
                 page_text = ''Statistics (3 threadmarks, '' @ [newline] @ ''10k words)''\<rparr>)"

definition busy_net :: network where
  "busy_net n u =
     (if n = 1 then Some \<lparr>status_code = 429, page_text = []\<rparr> else crawl_net n u)"

definition crawl_clock :: clock where
  "crawl_clock n = of_nat n"

definition throttled_scraper :: scraper where
  "throttled_scraper = new_scraper\<lparr>rate_limited := True, rate_calc := [\<lparr>time = 0, requests = 0\<rparr>]\<rparr>"

subsection \<open>Lines of the delimited format\<close>

text \<open>A line of the delimited format, in the words of the specification: a non-empty
  field, then a vertical bar, then \<open>http://\<close> or \<open>https://\<close> and at least one more
  character, all before the end of the line.\<close>

definition is_record_line :: "string \<Rightarrow> bool" where
  "is_record_line line =
     (\<exists>field scheme c rest.
        line = field @ ''|'' @ scheme @ ''://'' @ c # rest
        \<and> field \<noteq> [] \<and> newline \<notin> set field
        \<and> (scheme = ''http'' \<or> scheme = ''https'')
        \<and> c \<noteq> newline)"

section \<open>Properties of the rate estimator\<close>

lemma dec_digit: "n < 10 \<Longrightarrow> dec n = [''0123456789'' ! n]"
  by (subst dec.simps) simp

lemma dec_more: "\<not> n < 10 \<Longrightarrow> dec n = dec (n div 10) @ [''0123456789'' ! (n mod 10)]"
  by (subst dec.simps) simp

text \<open>
  Claim C6. A scraper that is already throttled and holds the sample (time 0, request 1)
  is throttled again at time 10 while fetching request 6 of 16. The window then holds
  exactly the two samples (0, 1) and (10, 6), the reported rate is 1/2 request per
  second, and the time left for the 10 remaining requests is 20 seconds, printed as
  \<open>00:00:20\<close>. (Both quotients, 5 / 10 and 10 / 0.5, are exact in binary floating
  point as well.)
\<close>

theorem rate_and_eta_of_two_samples:
  "hit_rate_limit 10 6 16 (s\<lparr>rate_limited := True, rate_calc := [\<lparr>time = 0, requests = 1\<rparr>]\<rparr>)
     = (Inr (Some (1 / 2, ''00:00:20'')),
        s\<lparr>rate_limited := True,
          rate_calc := [\<lparr>time = 0, requests = 1\<rparr>, \<lparr>time = 10, requests = 6\<rparr>]\<rparr>)"
  by (simp add: hit_rate_limit_def Let_def py_int_def fmt_sec_def fmt_02d_def dec_digit dec_more)

lemma hit_rate_limit_first:
  "\<not> rate_limited s \<Longrightarrow>
     hit_rate_limit now p_cur p_max s
       = (Inr None, s\<lparr>rate_limited := True, rate_calc := [\<lparr>time = now, requests = p_cur\<rparr>]\<rparr>)"
  by (simp add: hit_rate_limit_def)

lemma hit_rate_limit_window:
  "rate_limited s \<Longrightarrow>
     rate_calc (snd (hit_rate_limit now p_cur p_max s))
       = (if length (rate_calc s) \<ge> 5 then tl (rate_calc s @ [\<lparr>time = now, requests = p_cur\<rparr>])
          else rate_calc s @ [\<lparr>time = now, requests = p_cur\<rparr>])"
  by (simp add: hit_rate_limit_def Let_def)

lemma hit_rate_limit_flag: "rate_limited (snd (hit_rate_limit now p_cur p_max s))"
  by (simp add: hit_rate_limit_def Let_def)

lemma hit_rate_limit_other:
  "requests_sent (snd (hit_rate_limit now p_cur p_max s)) = requests_sent s"
  "errors_printed (snd (hit_rate_limit now p_cur p_max s)) = errors_printed s"
  by (simp_all add: hit_rate_limit_def Let_def)

lemma hit_rate_limit_recent:
  assumes "rate_limited s" and "length (rate_calc s) \<le> 5"
  shows "rate_calc (snd (hit_rate_limit now p_cur p_max s))
       = drop (length (rate_calc s) + 1 - 5) (rate_calc s @ [\<lparr>time = now, requests = p_cur\<rparr>])"
proof (cases "length (rate_calc s) = 5")
  case True
  then have "rate_calc s \<noteq> []" by auto
  with True assms(1) show ?thesis
    by (simp add: hit_rate_limit_window drop_Suc tl_append2)
next
  case False
  with assms show ?thesis by (simp add: hit_rate_limit_window)
qed

lemma throttles_recent:
  "rate_limited s \<Longrightarrow> length (rate_calc s) \<le> 5 \<Longrightarrow>
     rate_calc (throttles calls s)
       = drop (length (rate_calc s) + length calls - 5) (rate_calc s @ map sample calls)"
proof (induction calls arbitrary: s)
  case Nil
  then show ?case by simp
next
  case (Cons c calls)
  obtain now p_cur p_max where c: "c = (now, p_cur, p_max)" by (cases c)
  let ?s = "snd (hit_rate_limit now p_cur p_max s)"
  let ?w = "rate_calc s @ [\<lparr>time = now, requests = p_cur\<rparr>]"
  have w: "rate_calc ?s = drop (length (rate_calc s) + 1 - 5) ?w"
    using Cons.prems by (rule hit_rate_limit_recent)
  then have len: "length (rate_calc ?s) \<le> 5" using Cons.prems(2) by simp
  have "rate_calc (throttles calls ?s)
      = drop (length (rate_calc ?s) + length calls - 5) (rate_calc ?s @ map sample calls)"
    using hit_rate_limit_flag len by (rule Cons.IH)
  also have "\<dots> = drop (length (rate_calc s) + length (c # calls) - 5)
                      (rate_calc s @ map sample (c # calls))"
  proof (cases "length (rate_calc s) = 5")
    case True
    then show ?thesis by (simp add: w c sample_def)
  next
    case False
    with Cons.prems(2) show ?thesis by (simp add: w c sample_def)
  qed
  finally show ?case by (simp add: c)
qed

lemma throttles_new:
  "rate_calc (throttles calls new_scraper) = drop (length calls - 5) (map sample calls)"
proof (cases calls)
  case Nil
  then show ?thesis by (simp add: new_scraper_def)
next
  case (Cons c cs)
  obtain now p_cur p_max where c: "c = (now, p_cur, p_max)" by (cases c)
  let ?s = "snd (hit_rate_limit now p_cur p_max new_scraper)"
  have s: "rate_limited ?s" "rate_calc ?s = [sample c]"
    by (simp_all add: hit_rate_limit_def new_scraper_def c sample_def)
  then have "rate_calc (throttles cs ?s)
      = drop (length (rate_calc ?s) + length cs - 5) (rate_calc ?s @ map sample cs)"
    by (intro throttles_recent) simp_all
  then show ?thesis by (simp add: Cons c s)
qed

text \<open>
  Claim C7. After any number of calls of the throttle handler on a new scraper, the
  window holds the samples of the last five calls (all of them when there were fewer),
  in order, so at most five. The first throttle, on any state whose flag is not set,
  sets the flag, resets the window to its one sample and prints nothing. Every later
  call, on a window of at most five samples, leaves the last five of the window with
  the new sample appended: the oldest one goes when a sixth would stay.
\<close>

theorem window_keeps_five_most_recent:
  "rate_calc (throttles calls new_scraper) = drop (length calls - 5) (map sample calls)
   \<and> length (rate_calc (throttles calls new_scraper)) \<le> 5
   \<and> (\<not> rate_limited s \<longrightarrow>
        hit_rate_limit now p_cur p_max s
          = (Inr None, s\<lparr>rate_limited := True, rate_calc := [\<lparr>time = now, requests = p_cur\<rparr>]\<rparr>))
   \<and> (rate_limited s \<and> length (rate_calc s) \<le> 5 \<longrightarrow>
        rate_calc (snd (hit_rate_limit now p_cur p_max s))
          = drop (length (rate_calc s) + 1 - 5) (rate_calc s @ [\<lparr>time = now, requests = p_cur\<rparr>])
        \<and> length (rate_calc (snd (hit_rate_limit now p_cur p_max s))) \<le> 5)"
proof -
  have "length (rate_calc (throttles calls new_scraper)) \<le> 5"
    unfolding throttles_new by simp
  moreover have "length (rate_calc (snd (hit_rate_limit now p_cur p_max s))) \<le> 5"
    if "rate_limited s" "length (rate_calc s) \<le> 5"
    using that by (simp add: hit_rate_limit_recent)
  ultimately show ?thesis
    using throttles_new hit_rate_limit_first hit_rate_limit_recent by blast
qed

theorem window_keeps_five_most_recent_witness:
  "rate_calc (throttles six_calls new_scraper)
     = [\<lparr>time = 5, requests = 2\<rparr>, \<lparr>time = 10, requests = 3\<rparr>, \<lparr>time = 15, requests = 4\<rparr>,
        \<lparr>time = 20, requests = 5\<rparr>, \<lparr>time = 25, requests = 6\<rparr>]
   \<and> hit_rate_limit 0 1 9 new_scraper
     = (Inr None, new_scraper\<lparr>rate_limited := True, rate_calc := [\<lparr>time = 0, requests = 1\<rparr>]\<rparr>)
   \<and> rate_calc (snd (hit_rate_limit 25 6 9 (throttles (butlast six_calls) new_scraper)))
     = [\<lparr>time = 5, requests = 2\<rparr>, \<lparr>time = 10, requests = 3\<rparr>, \<lparr>time = 15, requests = 4\<rparr>,
        \<lparr>time = 20, requests = 5\<rparr>, \<lparr>time = 25, requests = 6\<rparr>]"
proof -
  have pre: "rate_limited (throttles (butlast six_calls) new_scraper)"
    "rate_calc (throttles (butlast six_calls) new_scraper)
      = [\<lparr>time = 0, requests = 1\<rparr>, \<lparr>time = 5, requests = 2\<rparr>, \<lparr>time = 10, requests = 3\<rparr>,
         \<lparr>time = 15, requests = 4\<rparr>, \<lparr>time = 20, requests = 5\<rparr>]"
    by (simp_all add: six_calls_def new_scraper_def hit_rate_limit_def Let_def)
  have fresh: "\<not> rate_limited new_scraper" by (simp add: new_scraper_def)
  show ?thesis
    using window_keeps_five_most_recent [of six_calls new_scraper 0 1 9]
      window_keeps_five_most_recent [of six_calls "throttles (butlast six_calls) new_scraper" 25 6 9]
      pre fresh
    by (simp add: six_calls_def sample_def)
qed

section \<open>Properties of the index enumeration\<close>

lemma threads_of_Nil [simp]: "threads_of [] = []"
  by (simp add: threads_of_def)

lemma threads_of_Cons:
  "threads_of (a # links) =
     (case anchor_href a of None \<Rightarrow> [] | Some h \<Rightarrow> [Thread (link_name a) h]) @ threads_of links"
  by (simp add: threads_of_def)

lemma threads_of_append: "threads_of (xs @ ys) = threads_of xs @ threads_of ys"
  by (simp add: threads_of_def)

lemma upto_end_Nil [simp]: "upto_end el [] = []"
  by (simp add: upto_end_def)

lemma upto_end_Cons:
  "upto_end el (t # ts) = (if name t = el then [t] else t # upto_end el ts)"
  by (simp add: upto_end_def)

lemma name_Thread [simp]: "name (Thread n u) = n" "url (Thread n u) = u" "word_count (Thread n u) = ''-1''"
  by (simp_all add: Thread_def)

lemma useful_has_href: "is_link_useful None t = False"
  by (simp add: is_link_useful_def)

lemma scan_links_active:
  "scan_links sl el True links acc = acc @ upto_end el (threads_of (filter (candidate sl) links))"
proof (induction links arbitrary: acc)
  case Nil
  show ?case by simp
next
  case (Cons a links)
  show ?case
  proof (cases "candidate sl a")
    case False
    then show ?thesis
      using Cons.IH by (auto simp: candidate_def link_name_def Let_def)
  next
    case True
    then obtain h where h: "anchor_href a = Some h"
      by (cases "anchor_href a") (auto simp: candidate_def useful_has_href)
    with True show ?thesis
      using Cons.IH
      by (auto simp: candidate_def link_name_def Let_def threads_of_Cons upto_end_Cons)
  qed
qed

lemma scan_links_inactive:
  "scan_links sl el False links acc = scan_links sl el True (after_start sl links) acc"
  by (induction links arbitrary: acc) (auto simp: after_start_def Let_def)

lemma parse_index_page_eq:
  "parse_index_page links sl el None
     = upto_end el (threads_of (filter (candidate sl) (after_start sl links)))"
  by (simp add: parse_index_page_def scan_links_inactive scan_links_active)

lemma upto_end_set: "set (upto_end el ts) \<subseteq> set ts"
  by (induction ts) (auto simp: upto_end_Cons)

lemma threads_of_useful:
  "t \<in> set (threads_of (filter (candidate sl) links)) \<Longrightarrow>
     \<exists>a\<in>set links. candidate sl a \<and> anchor_href a = Some (url t) \<and> name t = link_name a"
  by (induction links) (auto simp: threads_of_Cons split: option.splits if_splits)

lemma useful_prefix: "is_link_useful (Some h) t \<Longrightarrow> prefix ''http'' (strip h)"
  by (auto simp: is_link_useful_def Let_def split: if_splits)

text \<open>The one entry of the ignore list does not start with \<open>http\<close>: the membership test
  never rejects a link that the prefix test lets through.\<close>

lemma ignore_test_never_decides: "prefix ''http'' x \<Longrightarrow> x \<notin> set urls_to_ignore"
  by (auto simp: urls_to_ignore_def)

lemma upto_end_all: "\<forall>t\<in>set ts. name t \<noteq> el \<Longrightarrow> upto_end el ts = ts"
  by (induction ts) (auto simp: upto_end_Cons)

lemma example_eval:
  "parse_index_page example_links ''Start'' ''End'' None
     = [Thread ''Keep'' ''http://b'', Thread ''End'' ''http://c'']"
  by (simp add: parse_index_page_def example_links_def is_link_useful_def remove_char_def
      urls_to_ignore_def str_contains_def Let_def strip_def is_space_def)

text \<open>
  Claim C2, as amended. On the five anchors of the example, with the markers \<open>Start\<close> and
  \<open>End\<close>, the enumeration yields exactly the threads \<open>Keep\<close> and \<open>End\<close>. In general the
  threads collected are, in document order, those of the candidate anchors after the
  first anchor whose text is the start marker (that anchor and every other anchor with
  the same text are left out), up to and including the first one whose name is the end
  marker; a list carried forward is put in front. An anchor without an \<open>href\<close>, or whose
  \<open>href\<close>, stripped, does not start with the four characters \<open>http\<close>, is no candidate,
  so the url of every collected thread, stripped, starts with \<open>http\<close>.
\<close>

theorem index_enumeration:
  "parse_index_page example_links ''Start'' ''End'' None
     = [Thread ''Keep'' ''http://b'', Thread ''End'' ''http://c'']
   \<and> parse_index_page links start_link end_link None
     = upto_end end_link
         (threads_of (filter (candidate start_link) (after_start start_link links)))
   \<and> parse_index_page links start_link end_link (Some prev)
     = prev @ parse_index_page links start_link end_link None
   \<and> (anchor_href a = None \<longrightarrow> \<not> candidate start_link a)
   \<and> (\<forall>h. anchor_href a = Some h \<and> \<not> prefix ''http'' (strip h) \<longrightarrow> \<not> candidate start_link a)
   \<and> (\<forall>t\<in>set (parse_index_page links start_link end_link None). prefix ''http'' (strip (url t)))"
proof -
  have "prefix ''http'' (strip (url t))"
    if "t \<in> set (parse_index_page links start_link end_link None)" for t
  proof -
    from that upto_end_set
    have "t \<in> set (threads_of (filter (candidate start_link) (after_start start_link links)))"
      unfolding parse_index_page_eq by blast
    from threads_of_useful [OF this] obtain a
      where "candidate start_link a" "anchor_href a = Some (url t)" by blast
    then have "is_link_useful (Some (url t)) (link_name a)" by (simp add: candidate_def)
    then show ?thesis by (rule useful_prefix)
  qed
  moreover have "parse_index_page links start_link end_link (Some prev)
     = prev @ parse_index_page links start_link end_link None"
    by (simp add: parse_index_page_def)
  moreover have "anchor_href a = None \<longrightarrow> \<not> candidate start_link a"
    by (simp add: candidate_def useful_has_href)
  moreover have "\<forall>h. anchor_href a = Some h \<and> \<not> prefix ''http'' (strip h)
      \<longrightarrow> \<not> candidate start_link a"
    using useful_prefix by (auto simp: candidate_def)
  ultimately show ?thesis
    using example_eval parse_index_page_eq by blast
qed

theorem index_enumeration_witness:
  "parse_index_page example_links ''Start'' ''End'' (Some [Thread ''Old'' ''http://o''])
     = [Thread ''Old'' ''http://o'', Thread ''Keep'' ''http://b'', Thread ''End'' ''http://c'']
   \<and> \<not> candidate ''Start'' \<lparr>anchor_text = ''skip-me'', anchor_href = Some ''x''\<rparr>
   \<and> \<not> candidate ''Start'' \<lparr>anchor_text = ''Footer'', anchor_href = None\<rparr>
   \<and> prefix ''http'' (strip (url (Thread ''Keep'' ''http://b'')))"
proof -
  note inst = index_enumeration [of example_links "''Start''" "''End''"
      "[Thread ''Old'' ''http://o'']" "\<lparr>anchor_text = ''skip-me'', anchor_href = Some ''x''\<rparr>"]
  note inst2 = index_enumeration [of example_links "''Start''" "''End''"
      "[Thread ''Old'' ''http://o'']" "\<lparr>anchor_text = ''Footer'', anchor_href = None\<rparr>"]
  from inst have out: "parse_index_page example_links ''Start'' ''End'' None
      = [Thread ''Keep'' ''http://b'', Thread ''End'' ''http://c'']"
    by (rule conjunct1)
  from inst have carried: "parse_index_page example_links ''Start'' ''End''
      (Some [Thread ''Old'' ''http://o''])
      = [Thread ''Old'' ''http://o''] @ parse_index_page example_links ''Start'' ''End'' None"
    by blast
  have nohttp: "\<not> prefix ''http'' (strip ''x'')"
    by (simp add: strip_def is_space_def)
  from inst nohttp
  have skip: "\<not> candidate ''Start'' \<lparr>anchor_text = ''skip-me'', anchor_href = Some ''x''\<rparr>"
    by simp
  from inst2 have footer: "\<not> candidate ''Start'' \<lparr>anchor_text = ''Footer'', anchor_href = None\<rparr>"
    by simp
  from inst have "\<forall>t\<in>set (parse_index_page example_links ''Start'' ''End'' None).
      prefix ''http'' (strip (url t))"
    by blast
  then have "prefix ''http'' (strip (url (Thread ''Keep'' ''http://b'')))"
    unfolding out by simp
  with carried out skip footer show ?thesis by simp
qed

text \<open>
  The claim C2 as stated says that an anchor whose \<open>href\<close> lacks an HTTP scheme, or
  matches the ignore list, is left out. The \<open>href\<close> \<open>httpx\<close> has no HTTP scheme and is
  collected; so is the absolute link to the terms of service, which contains the entry
  of the ignore list.
\<close>

theorem index_enumeration_counterexample:
  "parse_index_page loose_links ''Start'' ''End'' None
     = [Thread ''Keep'' ''httpx'',
        Thread ''Terms'' ''https://forums.sufficientvelocity.com/threads/rules-terms-of-service'',
        Thread ''End'' ''http://c'']
   \<and> \<not> has_http_scheme ''httpx''
   \<and> sublist ''/threads/rules-terms-of-service''
        ''https://forums.sufficientvelocity.com/threads/rules-terms-of-service''"
proof -
  have "''https://forums.sufficientvelocity.com/threads/rules-terms-of-service''
      = ''https://forums.sufficientvelocity.com'' @ ''/threads/rules-terms-of-service'' @ []"
    by simp
  then have "sublist ''/threads/rules-terms-of-service''
      ''https://forums.sufficientvelocity.com/threads/rules-terms-of-service''"
    unfolding sublist_def by (rule_tac x = "''https://forums.sufficientvelocity.com''" in exI,
        rule_tac x = "[]" in exI)
  moreover have "parse_index_page loose_links ''Start'' ''End'' None
     = [Thread ''Keep'' ''httpx'',
        Thread ''Terms'' ''https://forums.sufficientvelocity.com/threads/rules-terms-of-service'',
        Thread ''End'' ''http://c'']"
    by (simp add: parse_index_page_def loose_links_def is_link_useful_def remove_char_def
      urls_to_ignore_def str_contains_def Let_def strip_def is_space_def)
  moreover have "\<not> has_http_scheme ''httpx''"
    by (simp add: has_http_scheme_def)
  ultimately show ?thesis by (intro conjI)
qed

text \<open>
  Claim C10. The stop test follows the append. When the anchor whose text is the end
  marker is rejected by the usefulness filter, and no other anchor after the start
  marker carries the end marker as its name, the enumeration runs to the end of the
  anchor list: it collects every candidate anchor before and after the rejected one.
\<close>

theorem rejected_end_marker_does_not_stop:
  assumes "anchor_text s = start_link"
    and "\<forall>a\<in>set pre. anchor_text a \<noteq> start_link"
    and "anchor_text e = end_link"
    and "\<not> is_link_useful (anchor_href e) (link_name e)"
    and "\<forall>a\<in>set (mid @ later). link_name a \<noteq> end_link"
  shows "parse_index_page (pre @ s # mid @ e # later) start_link end_link None
     = threads_of (filter (candidate start_link) (mid @ later))"
proof -
  have "after_start start_link (pre @ s # mid @ e # later) = mid @ e # later"
    using assms(1,2) by (simp add: after_start_def dropWhile_append3)
  moreover have "filter (candidate start_link) (mid @ e # later)
      = filter (candidate start_link) (mid @ later)"
    using assms(4) by (simp add: candidate_def)
  moreover have "\<forall>t\<in>set (threads_of (filter (candidate start_link) (mid @ later))).
      name t \<noteq> end_link"
  proof
    fix t
    assume "t \<in> set (threads_of (filter (candidate start_link) (mid @ later)))"
    from threads_of_useful [OF this] obtain a
      where "a \<in> set (mid @ later)" "name t = link_name a" by blast
    with assms(5) show "name t \<noteq> end_link" by simp
  qed
  ultimately show ?thesis
    by (simp add: parse_index_page_eq upto_end_all)
qed

theorem rejected_end_marker_witness:
  "parse_index_page late_links ''Start'' ''End'' None
     = [Thread ''Keep'' ''http://b'', Thread ''Later'' ''http://d'', Thread ''Last'' ''http://e'']"
  using rejected_end_marker_does_not_stop
    [of "\<lparr>anchor_text = ''Start'', anchor_href = Some ''http://a''\<rparr>" "''Start''"
        "[\<lparr>anchor_text = ''skip-me'', anchor_href = Some ''http://x''\<rparr>]"
        "\<lparr>anchor_text = ''End'', anchor_href = Some ''/threads/c''\<rparr>" "''End''"
        "[\<lparr>anchor_text = ''Keep'', anchor_href = Some ''http://b''\<rparr>]"
        "[\<lparr>anchor_text = ''Later'', anchor_href = Some ''http://d''\<rparr>,
          \<lparr>anchor_text = ''Footer'', anchor_href = None\<rparr>,
          \<lparr>anchor_text = ''Last'', anchor_href = Some ''http://e''\<rparr>]"]
  by (simp add: late_links_def link_name_def candidate_def threads_of_def is_link_useful_def
      remove_char_def urls_to_ignore_def str_contains_def Let_def strip_def is_space_def)

section \<open>Properties of the word-count extraction\<close>

text \<open>\<open>find_idx\<close> finds the first occurrence, and every text that contains a non-empty
  marker splits at its first occurrence.\<close>

lemma find_idx_absent: "find_idx sub s i = -1 \<longleftrightarrow> \<not> sublist sub s"
  by (induction s arbitrary: i) (auto simp: sublist_Cons_right)

lemma prefix_inside:
  assumes "prefix sub (pre @ sub @ rest)" and "pre \<noteq> []" and "sub \<noteq> []"
  shows "prefix sub (pre @ butlast sub)"
proof -
  have "pre @ sub @ rest = (pre @ butlast sub) @ (last sub # rest)"
    using assms(3) by simp
  then have "prefix (pre @ butlast sub) (pre @ sub @ rest)"
    by (metis prefixI)
  moreover have "length sub \<le> length (pre @ butlast sub)"
    using assms(2,3) by (cases pre) auto
  ultimately show ?thesis
    using assms(1) prefix_length_prefix by blast
qed

lemma find_idx_first:
  "\<not> sublist sub (pre @ butlast sub) \<Longrightarrow>
     find_idx sub (pre @ sub @ rest) i = int (i + length pre)"
proof (induction pre arbitrary: i)
  case Nil
  show ?case
  proof (cases "sub @ rest")
    case Nil
    then show ?thesis by simp
  next
    case (Cons a list)
    then have "prefix sub (a # list)" by (metis prefixI)
    then show ?thesis by (simp add: Cons)
  qed
next
  case (Cons p ps)
  from Cons.prems have sub: "sub \<noteq> []" by auto
  have "\<not> prefix sub ((p # ps) @ sub @ rest)"
  proof
    assume "prefix sub ((p # ps) @ sub @ rest)"
    then have "prefix sub ((p # ps) @ butlast sub)"
      using sub by (intro prefix_inside) auto
    with Cons.prems show False by (meson prefix_imp_sublist)
  qed
  moreover from Cons.prems have "\<not> sublist sub (ps @ butlast sub)"
    by (auto simp: sublist_Cons_right)
  ultimately show ?case using Cons.IH [of "Suc i"] by simp
qed

lemma first_occurrence:
  "sub \<noteq> [] \<Longrightarrow> sublist sub s \<Longrightarrow>
     \<exists>pre rest. s = pre @ sub @ rest \<and> \<not> sublist sub (pre @ butlast sub)"
proof (induction s)
  case Nil
  then show ?case by simp
next
  case (Cons c cs)
  show ?case
  proof (cases "prefix sub (c # cs)")
    case True
    then obtain rest where "c # cs = [] @ sub @ rest" by (auto simp: prefix_def)
    moreover have "\<not> sublist sub ([] @ butlast sub)"
    proof
      assume "sublist sub ([] @ butlast sub)"
      then have "sublist sub (butlast sub)" by simp
      then have "length sub \<le> length (butlast sub)" by (rule sublist_length_le)
      moreover have "0 < length sub" using Cons.prems(1) by simp
      ultimately show False unfolding length_butlast by arith
    qed
    ultimately show ?thesis by blast
  next
    case False
    with Cons.prems have "sublist sub cs" by (simp add: sublist_Cons_right)
    from Cons.IH [OF Cons.prems(1) this] obtain pre rest
      where cs: "cs = pre @ sub @ rest" and first: "\<not> sublist sub (pre @ butlast sub)" by blast
    have "\<not> prefix sub ((c # pre) @ butlast sub)"
    proof
      assume "prefix sub ((c # pre) @ butlast sub)"
      moreover have "prefix ((c # pre) @ butlast sub) (c # cs)"
        using Cons.prems(1) unfolding cs
        by (metis append.assoc append_butlast_last_id prefixI append_Cons)
      ultimately have "prefix sub (c # cs)" by (rule prefix_order.trans)
      with False show False ..
    qed
    with first have "\<not> sublist sub ((c # pre) @ butlast sub)"
      by (simp add: sublist_Cons_right)
    with cs show ?thesis by (metis append_Cons)
  qed
qed

lemma SV_end_not_in_start:
  "find_idx SV_end_text (SV_start_text @ rest) k = find_idx SV_end_text rest (k + 12)"
  by (simp add: SV_start_text_def SV_end_text_def eval_nat_numeral)

lemma str_find_0: "str_find s sub 0 = find_idx sub s 0"
  by (simp add: str_find_def clamp_index_def)

lemma str_find_at:
  "str_find (pre @ rest) sub (int (length pre)) = find_idx sub rest (length pre)"
  by (simp add: str_find_def clamp_index_def)

lemma slice_between:
  "slice (pre @ tok @ post) (int (length pre)) (int (length pre + length tok)) = tok"
  by (simp add: slice_def clamp_index_def)

lemma SV_start_absent:
  "\<not> sublist SV_start_text s \<Longrightarrow> SV_get_word_count_text s = PROBLEM_WORD_COUNT_NOT_FOUND"
  by (simp add: SV_get_word_count_text_def str_find_0 find_idx_absent)

lemma SV_end_absent:
  assumes "\<not> sublist SV_start_text (pre @ butlast SV_start_text)"
    and "\<not> sublist SV_end_text rest"
  shows "SV_get_word_count_text (pre @ SV_start_text @ rest) = PROBLEM_WORD_COUNT_NOT_FOUND"
proof -
  have start: "str_find (pre @ SV_start_text @ rest) SV_start_text 0 = int (length pre)"
    using find_idx_first [OF assms(1), of rest 0] by (simp add: str_find_0)
  have "str_find (pre @ SV_start_text @ rest) SV_end_text (int (length pre)) = -1"
    using assms(2) by (simp add: str_find_at SV_end_not_in_start find_idx_absent)
  with start show ?thesis by (simp add: SV_get_word_count_text_def)
qed

lemma SV_between:
  assumes "\<not> sublist SV_start_text (pre @ butlast SV_start_text)"
    and "\<not> sublist SV_end_text (tok @ butlast SV_end_text)"
  shows "SV_get_word_count_text (pre @ SV_start_text @ tok @ SV_end_text @ post)
      = (if tok = [] then PROBLEM_WORD_COUNT_NOT_FOUND else tok)"
proof -
  let ?s = "pre @ SV_start_text @ tok @ SV_end_text @ post"
  have start: "str_find ?s SV_start_text 0 = int (length pre)"
    using find_idx_first [OF assms(1), of "tok @ SV_end_text @ post" 0] by (simp add: str_find_0)
  have stop: "str_find ?s SV_end_text (int (length pre))
      = int (length pre + 12 + length tok)"
    using find_idx_first [OF assms(2), of post "length pre + 12"]
    by (simp add: str_find_at SV_end_not_in_start)
  have len: "length SV_start_text = 12" by (simp add: SV_start_text_def)
  have "slice ?s (int (length pre) + int (length SV_start_text))
      (int (length pre + 12 + length tok)) = tok"
    using slice_between [of "pre @ SV_start_text" tok "SV_end_text @ post"]
    by (simp add: len)
  with start stop show ?thesis
    by (simp add: SV_get_word_count_text_def Let_def)
qed

text \<open>
  Claim C1, as amended. The extraction of the first site is a total function of the
  text. When the start marker \<open>Statistics (\<close> does not occur, it returns the not-found
  sentinel. Otherwise, with \<open>pre\<close> the text before the first occurrence of the start
  marker: when the end marker \<open>words\<close> does not occur after the start marker, it returns
  the sentinel; and when \<open>tok\<close> is the text between the start marker and the first
  occurrence of the end marker after it, it returns \<open>tok\<close> as it stands, not trimmed, or
  the sentinel when \<open>tok\<close> is empty. (\<open>first_occurrence\<close>: these cases cover every text.)
\<close>

theorem marker_bounded_extraction:
  "(\<not> sublist SV_start_text s \<longrightarrow>
      SV_get_word_count_text s = PROBLEM_WORD_COUNT_NOT_FOUND)
   \<and> (\<not> sublist SV_start_text (pre @ butlast SV_start_text) \<and> \<not> sublist SV_end_text rest \<longrightarrow>
      SV_get_word_count_text (pre @ SV_start_text @ rest) = PROBLEM_WORD_COUNT_NOT_FOUND)
   \<and> (\<not> sublist SV_start_text (pre @ butlast SV_start_text)
        \<and> \<not> sublist SV_end_text (tok @ butlast SV_end_text) \<longrightarrow>
      SV_get_word_count_text (pre @ SV_start_text @ tok @ SV_end_text @ post)
        = (if tok = [] then PROBLEM_WORD_COUNT_NOT_FOUND else tok))"
  using SV_start_absent SV_end_absent SV_between by blast

lemma not_sublist_eval: "\<not> sublist sub s \<longleftrightarrow> find_idx sub s 0 = -1"
  by (simp add: find_idx_absent)

theorem marker_bounded_extraction_witness:
  "SV_get_word_count_text ''no statistics here'' = ''word count not found''
   \<and> SV_get_word_count_text ''Threadmarks Statistics (7 threadmarks, 24k'' = ''word count not found''
   \<and> SV_get_word_count_text ''Threadmarks Statistics (7 threadmarks, 24k words) Reader mode''
       = ''7 threadmarks, 24k ''
   \<and> SV_get_word_count_text ''Statistics (words)'' = ''word count not found''"
proof -
  have a: "\<not> sublist SV_start_text ''no statistics here''"
    and b: "\<not> sublist SV_start_text (''Threadmarks '' @ butlast SV_start_text)"
    and c: "\<not> sublist SV_end_text ''7 threadmarks, 24k''"
    and d: "\<not> sublist SV_end_text (''7 threadmarks, 24k '' @ butlast SV_end_text)"
    and e: "\<not> sublist SV_start_text ([] @ butlast SV_start_text)"
    and f: "\<not> sublist SV_end_text ([] @ butlast SV_end_text)"
    by (simp_all add: not_sublist_eval SV_start_text_def SV_end_text_def)
  from marker_bounded_extraction
      [of "''no statistics here''" "''Threadmarks ''" "''7 threadmarks, 24k''"
          "''7 threadmarks, 24k ''" "'') Reader mode''"] a b c d
    marker_bounded_extraction [of "[]" "[]" "[]" "[]" "'')''"] e f
  show ?thesis
    by (simp add: SV_start_text_def SV_end_text_def PROBLEM_WORD_COUNT_NOT_FOUND_def)
qed

text \<open>
  The claim C1 as stated says that the token is trimmed, and that a token that is
  empty once trimmed gives the sentinel. On the usual page text the token comes back
  with the space before \<open>words\<close>, and a token of one space comes back as it is.
\<close>

theorem marker_bounded_extraction_counterexample:
  "SV_get_word_count_text ''Statistics (7 threadmarks, 24k words)'' = ''7 threadmarks, 24k ''
   \<and> strip ''7 threadmarks, 24k '' = ''7 threadmarks, 24k''
   \<and> SV_get_word_count_text ''Statistics ( words)'' = '' ''
   \<and> strip '' '' = []"
  by (simp add: SV_get_word_count_text_def str_find_def slice_def clamp_index_def
      SV_start_text_def SV_end_text_def strip_def is_space_def)

text \<open>The pattern of the second site does what its documentation says on the text that
  follows the word \<open>Statistics\<close> in the documented example.\<close>

lemma QQ_pattern_on_documented_text:
  "re_search QQ_threadmark_pattern
     ([tab, tab, tab] @ ''7 threadmarks, Word Count: 4.9k9adam4 (7 threadmarks)'')
     = Some [1 \<mapsto> ''7 threadmarks'', 2 \<mapsto> ''4.9k'']"
  by (simp add: QQ_threadmark_pattern_def re_match_def tab_def is_digit_def is_word_def
      is_space_def)

text \<open>
  Claim C3. On the input \<open>Statistics\t\t\t7 threadmarks, Word Count: 4.9k9adam4 (7 threadmarks)\<close>
  of the documentation, the extraction of the second site returns the not-found
  sentinel, not \<open>7 threadmarks, 4.9k\<close>: the start marker \<open>Statistics (\<close> does not occur
  in the text, so the pattern is never applied.
\<close>

theorem QQ_documented_text_not_found:
  "QQ_get_word_count_text
     (''Statistics'' @ [tab, tab, tab] @ ''7 threadmarks, Word Count: 4.9k9adam4 (7 threadmarks)'')
     = ''word count not found''"
  by (simp add: QQ_get_word_count_text_def str_find_def clamp_index_def QQ_start_text_def
      tab_def PROBLEM_WORD_COUNT_NOT_FOUND_def)

section \<open>Properties of the fetch loop and of the orchestrator\<close>

text \<open>What one pass of the fetch loop can do.\<close>

lemma attempt_cases:
  obtains (raised_request) "net (requests_sent s) full_url = None"
      "attempt st net clk full_url p_cur p_max s
         = Inl (Inl RequestException, s\<lparr>requests_sent := Suc (requests_sent s)\<rparr>)"
  | (finished) page r where "net (requests_sent s) full_url = Some page"
      "status_code page \<noteq> 429"
      "attempt st net clk full_url p_cur p_max s
         = Inl (r, s\<lparr>requests_sent := Suc (requests_sent s)\<rparr>)"
  | (throttled_raised) page e where "net (requests_sent s) full_url = Some page"
      "status_code page = 429"
      "attempt st net clk full_url p_cur p_max s
         = Inl (Inl e, snd (hit_rate_limit (clk (requests_sent s)) p_cur p_max
                              (s\<lparr>requests_sent := Suc (requests_sent s)\<rparr>)))"
  | (throttled_retry) page where "net (requests_sent s) full_url = Some page"
      "status_code page = 429"
      "attempt st net clk full_url p_cur p_max s
         = Inr (snd (hit_rate_limit (clk (requests_sent s)) p_cur p_max
                       (s\<lparr>requests_sent := Suc (requests_sent s)\<rparr>)))"
proof (cases "net (requests_sent s) full_url")
  case None
  then show ?thesis by (intro raised_request) (simp_all add: attempt_def)
next
  case (Some page)
  show ?thesis
  proof (cases "status_code page = 429")
    case False
    with Some have "\<exists>r. attempt st net clk full_url p_cur p_max s
        = Inl (r, s\<lparr>requests_sent := Suc (requests_sent s)\<rparr>)"
      by (simp add: attempt_def Let_def)
    then obtain r where "attempt st net clk full_url p_cur p_max s
        = Inl (r, s\<lparr>requests_sent := Suc (requests_sent s)\<rparr>)" ..
    with Some False show ?thesis by (intro finished [of page r])
  next
    case True
    obtain r s2 where h: "hit_rate_limit (clk (requests_sent s)) p_cur p_max
        (s\<lparr>requests_sent := Suc (requests_sent s)\<rparr>) = (r, s2)"
      by (cases "hit_rate_limit (clk (requests_sent s)) p_cur p_max
        (s\<lparr>requests_sent := Suc (requests_sent s)\<rparr>)")
    show ?thesis
    proof (cases r)
      case (Inl e)
      with Some True h show ?thesis
        by (intro throttled_raised [of page e]) (simp_all add: attempt_def Let_def)
    next
      case (Inr rep)
      with Some True h show ?thesis
        by (intro throttled_retry [of page]) (simp_all add: attempt_def Let_def)
    qed
  qed
qed

lemma get_word_count_loop_flag:
  "rate_limited s \<Longrightarrow> rate_limited (snd (get_word_count_loop st net clk full_url p_cur p_max s))"
proof (induction st net clk full_url p_cur p_max s rule: get_word_count_loop.induct)
  case (1 st net clk full_url p_cur p_max s)
  show ?case
  proof (cases rule: attempt_cases [of net s full_url st clk p_cur p_max])
    case raised_request
    with "1.prems" show ?thesis by (subst get_word_count_loop.simps) simp
  next
    case (finished page r)
    with "1.prems" show ?thesis by (subst get_word_count_loop.simps) simp
  next
    case (throttled_raised page e)
    then show ?thesis
      by (subst get_word_count_loop.simps) (simp add: hit_rate_limit_flag)
  next
    case (throttled_retry page)
    then show ?thesis
      using "1.IH" [OF throttled_retry(3) hit_rate_limit_flag]
      by (subst get_word_count_loop.simps) simp
  qed
qed

lemma get_word_count_loop_errors:
  "errors_printed (snd (get_word_count_loop st net clk full_url p_cur p_max s)) = errors_printed s"
proof (induction st net clk full_url p_cur p_max s rule: get_word_count_loop.induct)
  case (1 st net clk full_url p_cur p_max s)
  show ?case
  proof (cases rule: attempt_cases [of net s full_url st clk p_cur p_max])
    case raised_request
    then show ?thesis by (subst get_word_count_loop.simps) simp
  next
    case (finished page r)
    then show ?thesis by (subst get_word_count_loop.simps) simp
  next
    case (throttled_raised page e)
    then show ?thesis
      by (subst get_word_count_loop.simps) (simp add: hit_rate_limit_other)
  next
    case (throttled_retry page)
    then show ?thesis
      using "1.IH" [OF throttled_retry(3)]
      by (subst get_word_count_loop.simps) (simp add: hit_rate_limit_other)
  qed
qed

lemma get_word_count_loop_unthrottled:
  assumes "\<forall>page. net (requests_sent s) full_url = Some page \<longrightarrow> status_code page \<noteq> 429"
  shows "rate_limited (snd (get_word_count_loop st net clk full_url p_cur p_max s)) = rate_limited s
    \<and> rate_calc (snd (get_word_count_loop st net clk full_url p_cur p_max s)) = rate_calc s"
proof (cases rule: attempt_cases [of net s full_url st clk p_cur p_max])
  case raised_request
  then show ?thesis by (subst (1 2) get_word_count_loop.simps) simp
next
  case (finished page r)
  then show ?thesis by (subst (1 2) get_word_count_loop.simps) simp
next
  case (throttled_raised page e)
  with assms show ?thesis by simp
next
  case (throttled_retry page)
  with assms show ?thesis by simp
qed

lemma retrieve_loop_flag:
  "rate_limited s \<Longrightarrow> rate_limited (snd (retrieve_loop st net clk p_max i threads s))"
proof (induction threads arbitrary: i s)
  case Nil
  then show ?case by simp
next
  case (Cons t threads)
  obtain r s1 where g: "get_word_count st net clk t (int i + 1) p_max s = (r, s1)"
    by (cases "get_word_count st net clk t (int i + 1) p_max s")
  from Cons.prems have "rate_limited (snd (get_word_count st net clk t (int i + 1) p_max s))"
    by (simp add: get_word_count_def get_word_count_loop_flag)
  with g have s1: "rate_limited s1" by simp
  show ?case
  proof (cases r)
    case (Inl e)
    have "rate_limited (s1\<lparr>errors_printed := errors_printed s1 @ [(url t, e)]\<rparr>)"
      using s1 by simp
    from Cons.IH [OF this] g Inl show ?thesis
      by (simp add: Let_def case_prod_beta)
  next
    case (Inr wc)
    from Cons.IH [OF s1] g Inr show ?thesis
      by (simp add: Let_def case_prod_beta)
  qed
qed

text \<open>
  Claim C8. A flag that is set stays set through the throttle handler, through
  \<open>get_word_count\<close> and through \<open>retrieve_word_counts\<close> (the index enumeration does not
  touch the scraper's state). The estimator changes only on a throttle: a
  \<open>get_word_count\<close> whose request is not answered with status 429 leaves the flag and
  the window as they were.
\<close>

theorem throttled_flag_never_cleared:
  "(rate_limited s \<longrightarrow>
      rate_limited (snd (hit_rate_limit now p_cur p_max s))
      \<and> rate_limited (snd (get_word_count st net clk thread p_cur p_max s))
      \<and> rate_limited (snd (retrieve_word_counts st net clk threads s)))
   \<and> ((\<forall>page. net (requests_sent s) (url_pattern st (url thread)) = Some page
            \<longrightarrow> status_code page \<noteq> 429) \<longrightarrow>
      rate_limited (snd (get_word_count st net clk thread p_cur p_max s)) = rate_limited s
      \<and> rate_calc (snd (get_word_count st net clk thread p_cur p_max s)) = rate_calc s)"
  using hit_rate_limit_flag get_word_count_loop_flag retrieve_loop_flag
    get_word_count_loop_unthrottled
      [of net s "url_pattern st (url thread)" st clk p_cur p_max]
  by (simp add: get_word_count_def retrieve_word_counts_def)

lemma retrieve_loop_Cons:
  "retrieve_loop st net clk p_max i (t # threads) s =
     (let (r, s1) = get_word_count st net clk t (int i + 1) p_max s;
          s2 = (case r of Inl e \<Rightarrow> s1\<lparr>errors_printed := errors_printed s1 @ [(url t, e)]\<rparr>
                        | Inr wc \<Rightarrow> s1);
          (rest, s3) = retrieve_loop st net clk p_max (Suc i) threads s2
      in ((case r of Inl e \<Rightarrow> t | Inr wc \<Rightarrow> populated t wc) # rest, s3))"
  by (simp add: Let_def populated_def split: prod.splits sum.splits)

declare retrieve_loop.simps(2) [simp del]

lemma retrieve_loop_length:
  "length (fst (retrieve_loop st net clk p_max i threads s)) = length threads"
  by (induction threads arbitrary: i s) (simp_all add: retrieve_loop_Cons Let_def case_prod_beta)

lemma retrieve_loop_nth:
  "k < length threads \<Longrightarrow>
     fst (retrieve_loop st net clk p_max i threads s) ! k =
       (case fst (get_word_count st net clk (threads ! k) (int (i + k) + 1) p_max
                    (snd (retrieve_loop st net clk p_max i (take k threads) s))) of
          Inl e \<Rightarrow> threads ! k
        | Inr wc \<Rightarrow> populated (threads ! k) wc)"
proof (induction threads arbitrary: i s k)
  case Nil
  then show ?case by simp
next
  case (Cons t threads)
  show ?case
  proof (cases k)
    case 0
    then show ?thesis
      by (simp add: retrieve_loop_Cons Let_def case_prod_beta split: sum.splits)
  next
    case (Suc j)
    with Cons.prems have "j < length threads" by simp
    from Cons.IH [OF this, of "Suc i"] Suc show ?thesis
      by (simp add: retrieve_loop_Cons Let_def case_prod_beta cong: sum.case_cong)
  qed
qed

lemma get_word_count_errors:
  "errors_printed (snd (get_word_count st net clk t p_cur p_max s)) = errors_printed s"
  by (simp add: get_word_count_def get_word_count_loop_errors)

lemma retrieve_loop_errors_grow:
  "\<exists>more. errors_printed (snd (retrieve_loop st net clk p_max i threads s))
            = errors_printed s @ more"
proof (induction threads arbitrary: i s)
  case Nil
  then show ?case by simp
next
  case (Cons t threads)
  obtain r s1 where g: "get_word_count st net clk t (int i + 1) p_max s = (r, s1)"
    by (cases "get_word_count st net clk t (int i + 1) p_max s")
  then have e1: "errors_printed s1 = errors_printed s"
    using get_word_count_errors [of st net clk t "int i + 1" p_max s] by simp
  show ?case
  proof (cases r)
    case (Inl e)
    from Cons.IH [of "Suc i" "s1\<lparr>errors_printed := errors_printed s1 @ [(url t, e)]\<rparr>"]
    show ?thesis using g Inl e1 by (auto simp: retrieve_loop_Cons Let_def case_prod_beta)
  next
    case (Inr wc)
    from Cons.IH [of "Suc i" s1]
    show ?thesis using g Inr e1 by (auto simp: retrieve_loop_Cons Let_def case_prod_beta)
  qed
qed

lemma retrieve_loop_error_printed:
  "k < length threads \<Longrightarrow>
   fst (get_word_count st net clk (threads ! k) (int (i + k) + 1) p_max
          (snd (retrieve_loop st net clk p_max i (take k threads) s))) = Inl e \<Longrightarrow>
   (url (threads ! k), e) \<in> set (errors_printed (snd (retrieve_loop st net clk p_max i threads s)))"
proof (induction threads arbitrary: i s k)
  case Nil
  then show ?case by simp
next
  case (Cons t threads)
  obtain r s1 where g: "get_word_count st net clk t (int i + 1) p_max s = (r, s1)"
    by (cases "get_word_count st net clk t (int i + 1) p_max s")
  show ?case
  proof (cases k)
    case 0
    with Cons.prems(2) g have r: "r = Inl e" by simp
    obtain more where
      "errors_printed (snd (retrieve_loop st net clk p_max (Suc i) threads
          (s1\<lparr>errors_printed := errors_printed s1 @ [(url t, e)]\<rparr>)))
        = errors_printed (s1\<lparr>errors_printed := errors_printed s1 @ [(url t, e)]\<rparr>) @ more"
      using retrieve_loop_errors_grow by blast
    with g r 0 show ?thesis
      by (simp add: retrieve_loop_Cons Let_def case_prod_beta)
  next
    case (Suc j)
    with Cons.prems have j: "j < length threads" by simp
    let ?s2 = "case r of Inl e \<Rightarrow> s1\<lparr>errors_printed := errors_printed s1 @ [(url t, e)]\<rparr>
                        | Inr wc \<Rightarrow> s1"
    from Cons.prems(2) Suc g
    have "fst (get_word_count st net clk (threads ! j) (int (Suc i + j) + 1) p_max
          (snd (retrieve_loop st net clk p_max (Suc i) (take j threads) ?s2))) = Inl e"
      by (simp add: retrieve_loop_Cons Let_def case_prod_beta)
    from Cons.IH [OF j this] g Suc show ?thesis
      by (simp add: retrieve_loop_Cons Let_def case_prod_beta)
  qed
qed

text \<open>
  Claim C4. When the fetch of thread \<open>k\<close> raises, \<open>retrieve_word_counts\<close> prints the error
  and goes on: the output has as many threads as the input, thread \<open>k\<close> is unchanged (its
  word count is still \<open>-1\<close> if it was), and every later thread is processed: it carries
  the result of its own fetch, or is unchanged if that fetch raised too.
\<close>

theorem failed_fetch_is_skipped:
  assumes "k < length threads"
    and "fetch_result st net clk threads s k = Inl e"
  shows "length (fst (retrieve_word_counts st net clk threads s)) = length threads
    \<and> fst (retrieve_word_counts st net clk threads s) ! k = threads ! k
    \<and> (word_count (threads ! k) = ''-1'' \<longrightarrow>
         word_count (fst (retrieve_word_counts st net clk threads s) ! k) = ''-1'')
    \<and> (url (threads ! k), e) \<in> set (errors_printed (snd (retrieve_word_counts st net clk threads s)))
    \<and> (\<forall>j. k < j \<and> j < length threads \<longrightarrow>
         fst (retrieve_word_counts st net clk threads s) ! j =
           (case fetch_result st net clk threads s j of
              Inl e' \<Rightarrow> threads ! j
            | Inr wc \<Rightarrow> populated (threads ! j) wc))"
proof -
  have nth: "fst (retrieve_word_counts st net clk threads s) ! j =
           (case fetch_result st net clk threads s j of
              Inl e' \<Rightarrow> threads ! j
            | Inr wc \<Rightarrow> populated (threads ! j) wc)" if "j < length threads" for j
    using retrieve_loop_nth [OF that, of st net clk "int (length threads)" 0 s]
    by (simp add: retrieve_word_counts_def fetch_result_def state_before_def)
  have k: "fst (retrieve_word_counts st net clk threads s) ! k = threads ! k"
    using nth [OF assms(1)] assms(2) by simp
  have "(url (threads ! k), e)
      \<in> set (errors_printed (snd (retrieve_word_counts st net clk threads s)))"
    using retrieve_loop_error_printed [OF assms(1), of st net clk 0 "int (length threads)" s e]
      assms(2)
    by (simp add: retrieve_word_counts_def fetch_result_def state_before_def)
  with k nth show ?thesis
    by (simp add: retrieve_word_counts_def retrieve_loop_length)
qed

lemma crawl_links_threads:
  "parse_index_page crawl_links ''Start'' ''End'' None = crawl_threads"
  by (simp add: parse_index_page_def crawl_links_def crawl_threads_def is_link_useful_def
      remove_char_def urls_to_ignore_def str_contains_def Let_def strip_def is_space_def
      newline_def)

lemmas fetch_eval =
  get_word_count_def get_word_count_loop.simps attempt_def url_pattern_def error_text_def
  str_contains_def remove_char_def get_word_count_text_def SV_get_word_count_text_def
  str_find_def slice_def clamp_index_def SV_start_text_def SV_end_text_def
  PROBLEM_WORD_COUNT_NOT_FOUND_def Thread_def newline_def Let_def

lemma crawl_fetch_0:
  "get_word_count SV crawl_net crawl_clock (crawl_threads ! 0) 1 3 s
     = (Inl (Exception404 ''http://a/threadmarks''), s\<lparr>requests_sent := Suc (requests_sent s)\<rparr>)"
  by (simp add: crawl_threads_def crawl_net_def fetch_eval)

lemma crawl_fetch_1:
  "get_word_count SV crawl_net crawl_clock (crawl_threads ! Suc 0) 2 3 s
     = (Inr ''3 threadmarks, 10k '', s\<lparr>requests_sent := Suc (requests_sent s)\<rparr>)"
  by (simp add: crawl_threads_def crawl_net_def fetch_eval)

lemma crawl_fetch_2:
  "get_word_count SV crawl_net crawl_clock (crawl_threads ! 2) 3 3 s
     = (Inr ''3 threadmarks, 10k '', s\<lparr>requests_sent := Suc (requests_sent s)\<rparr>)"
  by (simp add: crawl_threads_def crawl_net_def fetch_eval)

lemma crawl_outcome:
  "retrieve_word_counts SV crawl_net crawl_clock crawl_threads new_scraper
     = ([Thread (''Lost'' @ [newline] @ ''Story'') ''http://a'',
         \<lparr>name = ''KeptStory'', url = ''http://b'' @ [newline], word_count = ''3 threadmarks, 10k ''\<rparr>,
         \<lparr>name = ''End'', url = ''http://c'', word_count = ''3 threadmarks, 10k ''\<rparr>],
        new_scraper\<lparr>requests_sent := 3,
          errors_printed := [(''http://a'', Exception404 ''http://a/threadmarks'')]\<rparr>)"
  using crawl_fetch_0 crawl_fetch_1 crawl_fetch_2
  by (simp add: retrieve_word_counts_def retrieve_loop_Cons crawl_threads_def populated_def
      Thread_def new_scraper_def remove_char_def newline_def)

lemma crawl_length: "length crawl_threads = 3"
  by (simp add: crawl_threads_def)

lemma crawl_take_1: "take (Suc 0) crawl_threads = [crawl_threads ! 0]"
  by (simp add: crawl_threads_def)

lemma crawl_take_2: "take 2 crawl_threads = [crawl_threads ! 0, crawl_threads ! 1]"
  by (simp add: crawl_threads_def)

lemma crawl_fetch_results:
  "fetch_result SV crawl_net crawl_clock crawl_threads new_scraper 0
     = Inl (Exception404 ''http://a/threadmarks'')"
  "fetch_result SV crawl_net crawl_clock crawl_threads new_scraper (Suc 0)
     = Inr ''3 threadmarks, 10k ''"
  "fetch_result SV crawl_net crawl_clock crawl_threads new_scraper 2
     = Inr ''3 threadmarks, 10k ''"
  by (simp_all add: fetch_result_def state_before_def crawl_length crawl_take_1 crawl_take_2
      retrieve_loop_Cons crawl_fetch_0 crawl_fetch_1 crawl_fetch_2)

theorem failed_fetch_is_skipped_witness:
  "fst (retrieve_word_counts SV crawl_net crawl_clock crawl_threads new_scraper) ! 0
     = crawl_threads ! 0
   \<and> word_count (fst (retrieve_word_counts SV crawl_net crawl_clock crawl_threads new_scraper) ! 0)
     = ''-1''
   \<and> (''http://a'', Exception404 ''http://a/threadmarks'')
     \<in> set (errors_printed (snd (retrieve_word_counts SV crawl_net crawl_clock crawl_threads
                                    new_scraper)))
   \<and> fst (retrieve_word_counts SV crawl_net crawl_clock crawl_threads new_scraper) ! Suc 0
     = populated (crawl_threads ! Suc 0) ''3 threadmarks, 10k ''
   \<and> fst (retrieve_word_counts SV crawl_net crawl_clock crawl_threads new_scraper) ! 2
     = populated (crawl_threads ! 2) ''3 threadmarks, 10k ''"
proof -
  have k: "0 < length crawl_threads" by (simp add: crawl_length)
  have default: "word_count (crawl_threads ! 0) = ''-1''" "url (crawl_threads ! 0) = ''http://a''"
    by (simp_all add: crawl_threads_def Thread_def)
  note inst = failed_fetch_is_skipped [OF k crawl_fetch_results(1)]
  from inst default have
    "fst (retrieve_word_counts SV crawl_net crawl_clock crawl_threads new_scraper) ! 0
       = crawl_threads ! 0"
    "word_count (fst (retrieve_word_counts SV crawl_net crawl_clock crawl_threads new_scraper) ! 0)
       = ''-1''"
    "(''http://a'', Exception404 ''http://a/threadmarks'')
       \<in> set (errors_printed (snd (retrieve_word_counts SV crawl_net crawl_clock crawl_threads
                                      new_scraper)))"
    by simp_all
  moreover from inst have
    "fst (retrieve_word_counts SV crawl_net crawl_clock crawl_threads new_scraper) ! j =
       (case fetch_result SV crawl_net crawl_clock crawl_threads new_scraper j of
          Inl e' \<Rightarrow> crawl_threads ! j
        | Inr wc \<Rightarrow> populated (crawl_threads ! j) wc)" if "0 < j" "j < 3" for j
    using that by (simp add: crawl_length)
  from this [of "Suc 0"] this [of 2] have
    "fst (retrieve_word_counts SV crawl_net crawl_clock crawl_threads new_scraper) ! Suc 0
       = populated (crawl_threads ! Suc 0) ''3 threadmarks, 10k ''"
    "fst (retrieve_word_counts SV crawl_net crawl_clock crawl_threads new_scraper) ! 2
       = populated (crawl_threads ! 2) ''3 threadmarks, 10k ''"
    by (simp_all add: crawl_fetch_results)
  ultimately show ?thesis by simp
qed

lemma busy_fetch_1:
  "get_word_count SV busy_net crawl_clock (crawl_threads ! Suc 0) 2 3
     (throttled_scraper\<lparr>requests_sent := 1\<rparr>)
     = (Inr ''3 threadmarks, 10k '',
        throttled_scraper\<lparr>requests_sent := 3,
          rate_calc := [\<lparr>time = 0, requests = 0\<rparr>, \<lparr>time = 1, requests = 2\<rparr>]\<rparr>)"
  by (simp add: crawl_threads_def busy_net_def crawl_net_def crawl_clock_def
      throttled_scraper_def new_scraper_def hit_rate_limit_def fetch_eval)

theorem throttled_flag_never_cleared_witness:
  "rate_limited (throttled_scraper\<lparr>requests_sent := 1\<rparr>)
   \<and> rate_limited (snd (hit_rate_limit 1 2 3 (throttled_scraper\<lparr>requests_sent := 1\<rparr>)))
   \<and> snd (get_word_count SV busy_net crawl_clock (crawl_threads ! Suc 0) 2 3
            (throttled_scraper\<lparr>requests_sent := 1\<rparr>))
     = throttled_scraper\<lparr>requests_sent := 3,
         rate_calc := [\<lparr>time = 0, requests = 0\<rparr>, \<lparr>time = 1, requests = 2\<rparr>]\<rparr>
   \<and> rate_limited (snd (retrieve_word_counts SV busy_net crawl_clock crawl_threads
                          (throttled_scraper\<lparr>requests_sent := 1\<rparr>)))
   \<and> rate_calc (snd (get_word_count SV crawl_net crawl_clock (crawl_threads ! Suc 0) 2 3
                       (throttled_scraper\<lparr>requests_sent := 1\<rparr>)))
     = [\<lparr>time = 0, requests = 0\<rparr>]"
proof -
  have flag: "rate_limited (throttled_scraper\<lparr>requests_sent := 1\<rparr>)"
    by (simp add: throttled_scraper_def)
  have quiet: "\<forall>page. crawl_net (requests_sent (throttled_scraper\<lparr>requests_sent := 1\<rparr>))
        (url_pattern SV (url (crawl_threads ! Suc 0))) = Some page \<longrightarrow> status_code page \<noteq> 429"
    by (simp add: crawl_net_def)
  have window: "rate_calc (throttled_scraper\<lparr>requests_sent := 1\<rparr>) = [\<lparr>time = 0, requests = 0\<rparr>]"
    by (simp add: throttled_scraper_def)
  from throttled_flag_never_cleared
      [of "throttled_scraper\<lparr>requests_sent := 1\<rparr>" 1 2 3 SV busy_net crawl_clock
          "crawl_threads ! Suc 0" crawl_threads] flag
  have "rate_limited (snd (hit_rate_limit 1 2 3 (throttled_scraper\<lparr>requests_sent := 1\<rparr>)))"
    and "rate_limited (snd (retrieve_word_counts SV busy_net crawl_clock crawl_threads
                          (throttled_scraper\<lparr>requests_sent := 1\<rparr>)))"
    by simp_all
  moreover from throttled_flag_never_cleared
      [of "throttled_scraper\<lparr>requests_sent := 1\<rparr>" 1 2 3 SV crawl_net crawl_clock
          "crawl_threads ! Suc 0" crawl_threads] quiet window
  have "rate_calc (snd (get_word_count SV crawl_net crawl_clock (crawl_threads ! Suc 0) 2 3
                       (throttled_scraper\<lparr>requests_sent := 1\<rparr>)))
     = [\<lparr>time = 0, requests = 0\<rparr>]"
    by simp
  ultimately show ?thesis using flag busy_fetch_1 by simp
qed

lemma threads_of_shape:
  "t \<in> set (threads_of links) \<Longrightarrow> \<exists>a\<in>set links. \<exists>h. t = Thread (link_name a) h"
  by (induction links) (auto simp: threads_of_Cons split: option.splits)

lemma parse_index_page_fields:
  assumes "t \<in> set (parse_index_page links start_link end_link None)"
  shows "CHR ''|'' \<notin> set (name t) \<and> word_count t = ''-1''"
proof -
  from assms upto_end_set
  have "t \<in> set (threads_of (filter (candidate start_link) (after_start start_link links)))"
    unfolding parse_index_page_eq by blast
  from threads_of_shape [OF this] obtain a h where "t = Thread (link_name a) h" by blast
  then show ?thesis by (simp add: link_name_def remove_char_def)
qed

lemma output_record_set:
  "set (output_record t) = set (name t) \<union> set (url t) \<union> set (word_count t) \<union> {CHR ''|''}"
  by (auto simp: output_record_def)

text \<open>
  Claim C5, as amended. The threads of an index enumeration have no vertical bar in
  their names and the word count \<open>-1\<close>. After \<open>retrieve_word_counts\<close> on such threads,
  every thread still has no vertical bar in its name and no line feed in its word
  count, and its url is the one the anchor gave. A thread whose fetch returned a
  result has no line feed in its name either, and none in its whole record when its
  url has none.
\<close>

theorem output_fields_after_crawl:
  "(\<forall>t\<in>set (parse_index_page links start_link end_link None).
       CHR ''|'' \<notin> set (name t) \<and> word_count t = ''-1'')
   \<and> ((\<forall>t\<in>set threads. CHR ''|'' \<notin> set (name t) \<and> newline \<notin> set (word_count t))
        \<and> k < length threads \<longrightarrow>
        CHR ''|'' \<notin> set (name (fst (retrieve_word_counts st net clk threads s) ! k))
        \<and> newline \<notin> set (word_count (fst (retrieve_word_counts st net clk threads s) ! k))
        \<and> url (fst (retrieve_word_counts st net clk threads s) ! k) = url (threads ! k)
        \<and> (\<forall>wc. fetch_result st net clk threads s k = Inr wc \<longrightarrow>
              newline \<notin> set (name (fst (retrieve_word_counts st net clk threads s) ! k))
              \<and> (newline \<notin> set (url (threads ! k)) \<longrightarrow>
                    newline \<notin> set (output_record
                        (fst (retrieve_word_counts st net clk threads s) ! k)))))"
proof (intro conjI impI ballI allI; (elim conjE)?)
  fix t assume "t \<in> set (parse_index_page links start_link end_link None)"
  then show "CHR ''|'' \<notin> set (name t)" "word_count t = ''-1''"
    using parse_index_page_fields by blast+
next
  assume ok: "\<forall>t\<in>set threads. CHR ''|'' \<notin> set (name t) \<and> newline \<notin> set (word_count t)"
    and k: "k < length threads"
  let ?out = "fst (retrieve_word_counts st net clk threads s) ! k"
  have nth: "?out = (case fetch_result st net clk threads s k of
              Inl e' \<Rightarrow> threads ! k
            | Inr wc \<Rightarrow> populated (threads ! k) wc)"
    using retrieve_loop_nth [OF k, of st net clk "int (length threads)" 0 s]
    by (simp add: retrieve_word_counts_def fetch_result_def state_before_def)
  from ok k have tk: "CHR ''|'' \<notin> set (name (threads ! k))"
    "newline \<notin> set (word_count (threads ! k))" by simp_all
  show "CHR ''|'' \<notin> set (name ?out)"
    using tk by (simp add: nth populated_def remove_char_def split: sum.splits)
  show "newline \<notin> set (word_count ?out)"
    using tk by (simp add: nth populated_def remove_char_def split: sum.splits)
  show "url ?out = url (threads ! k)"
    by (simp add: nth populated_def split: sum.splits)
  fix wc assume wc: "fetch_result st net clk threads s k = Inr wc"
  show "newline \<notin> set (name ?out)"
    by (simp add: nth wc populated_def remove_char_def)
  assume "newline \<notin> set (url (threads ! k))"
  then show "newline \<notin> set (output_record ?out)"
    by (simp add: nth wc populated_def remove_char_def output_record_set newline_def)
qed

text \<open>
  The claim C5 as stated fails on the crawl above: the thread whose fetch raised keeps
  the line feed of its anchor text in its name, and the thread whose fetch returned
  keeps the line feed of its \<open>href\<close> in its url.
\<close>

theorem output_fields_counterexample:
  "fetch_result SV crawl_net crawl_clock
       (parse_index_page crawl_links ''Start'' ''End'' None) new_scraper 0
     = Inl (Exception404 ''http://a/threadmarks'')
   \<and> newline \<in> set (name (fst (retrieve_word_counts SV crawl_net crawl_clock
         (parse_index_page crawl_links ''Start'' ''End'' None) new_scraper) ! 0))
   \<and> fetch_result SV crawl_net crawl_clock
       (parse_index_page crawl_links ''Start'' ''End'' None) new_scraper (Suc 0)
     = Inr ''3 threadmarks, 10k ''
   \<and> newline \<in> set (url (fst (retrieve_word_counts SV crawl_net crawl_clock
         (parse_index_page crawl_links ''Start'' ''End'' None) new_scraper) ! Suc 0))
   \<and> \<not> (\<forall>t\<in>set (fst (retrieve_word_counts SV crawl_net crawl_clock
             (parse_index_page crawl_links ''Start'' ''End'' None) new_scraper)).
           newline \<notin> set (output_record t) \<and> CHR ''|'' \<notin> set (name t))"
  by (simp add: crawl_links_threads crawl_fetch_results crawl_outcome output_record_set Thread_def)

theorem output_fields_after_crawl_witness:
  "CHR ''|'' \<notin> set (name (fst (retrieve_word_counts SV crawl_net crawl_clock
         (parse_index_page crawl_links ''Start'' ''End'' None) new_scraper) ! 2))
   \<and> newline \<notin> set (output_record (fst (retrieve_word_counts SV crawl_net crawl_clock
         (parse_index_page crawl_links ''Start'' ''End'' None) new_scraper) ! 2))
   \<and> name (fst (retrieve_word_counts SV crawl_net crawl_clock
         (parse_index_page crawl_links ''Start'' ''End'' None) new_scraper) ! Suc 0) = ''KeptStory''"
proof -
  note inst = output_fields_after_crawl
    [of crawl_links "''Start''" "''End''" crawl_threads 2 SV crawl_net crawl_clock new_scraper]
  from inst have "\<forall>t\<in>set crawl_threads. CHR ''|'' \<notin> set (name t) \<and> word_count t = ''-1''"
    unfolding crawl_links_threads by (rule conjunct1)
  then have ok: "\<forall>t\<in>set crawl_threads. CHR ''|'' \<notin> set (name t) \<and> newline \<notin> set (word_count t)"
    by (auto simp: newline_def)
  have k: "2 < length crawl_threads" by (simp add: crawl_length)
  have u: "newline \<notin> set (url (crawl_threads ! 2))"
    by (simp add: crawl_threads_def Thread_def newline_def)
  from inst ok k u crawl_fetch_results(3)
  have "CHR ''|'' \<notin> set (name (fst (retrieve_word_counts SV crawl_net crawl_clock
         crawl_threads new_scraper) ! 2))"
    and "newline \<notin> set (output_record (fst (retrieve_word_counts SV crawl_net crawl_clock
         crawl_threads new_scraper) ! 2))"
    by blast+
  then show ?thesis
    by (simp add: crawl_links_threads) (simp add: crawl_outcome)
qed

section \<open>Properties of the companion filter\<close>

text \<open>When the constructs of the pattern match.\<close>

lemma rx_match_Lit:
  "rx_match (Lit w) (g, s) = (if prefix w s then [(g, drop (length w) s)] else [])"
proof (induction w arbitrary: s)
  case Nil
  show ?case by simp
next
  case (Cons c w)
  show ?case by (cases s) (simp_all add: Cons.IH)
qed

lemma matches_Seq:
  "rx_match (Seq a b) st \<noteq> [] \<longleftrightarrow> (\<exists>st'\<in>set (rx_match a st). rx_match b st' \<noteq> [])"
  by auto

lemma matches_Lit_then:
  "rx_match (Seq (Lit w) r) (g, s) \<noteq> [] \<longleftrightarrow> (\<exists>t. s = w @ t \<and> rx_match r (g, t) \<noteq> [])"
  unfolding matches_Seq rx_match_Lit by (auto simp: prefix_def)

lemma matches_Atom_then:
  "rx_match (Seq (Atom p) r) (g, s) \<noteq> [] \<longleftrightarrow> (\<exists>c t. s = c # t \<and> p c \<and> rx_match r (g, t) \<noteq> [])"
  unfolding matches_Seq by (cases s) auto

lemma matches_Opt_Atom_then:
  "rx_match (Seq (Opt (Atom p)) r) (g, s) \<noteq> [] \<longleftrightarrow>
     (\<exists>c t. s = c # t \<and> p c \<and> rx_match r (g, t) \<noteq> []) \<or> rx_match r (g, s) \<noteq> []"
  unfolding matches_Seq by (cases s) auto

lemma matches_LazyPlus:
  "rx_match (LazyPlus p) (g, s) \<noteq> [] \<longleftrightarrow> (\<exists>c t. s = c # t \<and> p c)"
  by (cases s) auto

lemma take_within_takeWhile:
  "k \<le> length (takeWhile p s) \<Longrightarrow> \<forall>c\<in>set (take k s). p c"
proof (induction s arbitrary: k)
  case Nil
  then show ?case by simp
next
  case (Cons x xs)
  show ?case
  proof (cases k)
    case 0
    then show ?thesis by simp
  next
    case (Suc j)
    with Cons.prems have "p x" "j \<le> length (takeWhile p xs)"
      by (auto split: if_splits)
    with Cons.IH [of j] Suc show ?thesis by simp
  qed
qed

lemma in_rx_match_LazyPlus:
  "st' \<in> set (rx_match (LazyPlus p) (g, s)) \<longleftrightarrow>
     (\<exists>k. 1 \<le> k \<and> k \<le> length (takeWhile p s) \<and> st' = (g, drop k s))"
  by (auto simp: image_iff less_Suc_eq_le)

lemma matches_LazyPlus_then:
  "rx_match (Seq (LazyPlus p) r) (g, s) \<noteq> [] \<longleftrightarrow>
     (\<exists>f t. s = f @ t \<and> f \<noteq> [] \<and> (\<forall>c\<in>set f. p c) \<and> rx_match r (g, t) \<noteq> [])"
proof
  assume "rx_match (Seq (LazyPlus p) r) (g, s) \<noteq> []"
  then obtain k where k: "1 \<le> k" "k \<le> length (takeWhile p s)"
    and m: "rx_match r (g, drop k s) \<noteq> []"
    unfolding matches_Seq Bex_def in_rx_match_LazyPlus by blast
  from k(2) have "\<forall>c\<in>set (take k s). p c" by (rule take_within_takeWhile)
  moreover have "take k s \<noteq> []"
    using k by (cases s) (auto simp: take_Cons')
  moreover have "s = take k s @ drop k s" by simp
  ultimately show "\<exists>f t. s = f @ t \<and> f \<noteq> [] \<and> (\<forall>c\<in>set f. p c) \<and> rx_match r (g, t) \<noteq> []"
    using m by blast
next
  assume "\<exists>f t. s = f @ t \<and> f \<noteq> [] \<and> (\<forall>c\<in>set f. p c) \<and> rx_match r (g, t) \<noteq> []"
  then obtain f t where s: "s = f @ t" and f: "f \<noteq> []" "\<forall>c\<in>set f. p c"
    and m: "rx_match r (g, t) \<noteq> []" by blast
  from f(2) have "takeWhile p s = f @ takeWhile p t"
    unfolding s by (simp add: takeWhile_append2)
  then have "length f \<le> length (takeWhile p s)" by simp
  moreover have "1 \<le> length f" using f(1) by (cases f) auto
  moreover have "drop (length f) s = t" by (simp add: s)
  ultimately have "(g, t) \<in> set (rx_match (LazyPlus p) (g, s))"
    unfolding in_rx_match_LazyPlus by blast
  with m show "rx_match (Seq (LazyPlus p) r) (g, s) \<noteq> []"
    unfolding matches_Seq by (rule_tac x = "(g, t)" in bexI)
qed

lemma matches_url_rest:
  "rx_match (Seq (Lit ''://'') (LazyPlus is_dot)) (g, s) \<noteq> [] \<longleftrightarrow>
     (\<exists>c rest. s = ''://'' @ c # rest \<and> c \<noteq> newline)"
  unfolding matches_Lit_then matches_LazyPlus is_dot_def by blast

lemma matches_url_scheme:
  "rx_match (Seq (Lit ''http'')
              (Seq (Opt (Atom (\<lambda>c. c = CHR ''s'')))
                (Seq (Lit ''://'') (LazyPlus is_dot)))) (g, s) \<noteq> [] \<longleftrightarrow>
     (\<exists>scheme c rest. s = scheme @ ''://'' @ c # rest
        \<and> (scheme = ''http'' \<or> scheme = ''https'') \<and> c \<noteq> newline)"
  (is "?l \<longleftrightarrow> ?r")
proof
  assume ?l
  then obtain t where t: "s = ''http'' @ t"
    and alt: "(\<exists>c u. t = c # u \<and> c = CHR ''s'' \<and> (\<exists>d rest. u = ''://'' @ d # rest \<and> d \<noteq> newline))
         \<or> (\<exists>d rest. t = ''://'' @ d # rest \<and> d \<noteq> newline)"
    unfolding matches_Lit_then [of "''http''"] matches_Opt_Atom_then matches_url_rest by blast
  from alt show ?r
  proof
    assume "\<exists>c u. t = c # u \<and> c = CHR ''s'' \<and> (\<exists>d rest. u = ''://'' @ d # rest \<and> d \<noteq> newline)"
    then obtain d rest where "t = CHR ''s'' # ''://'' @ d # rest" "d \<noteq> newline" by blast
    with t have "s = ''https'' @ ''://'' @ d # rest" by simp
    with \<open>d \<noteq> newline\<close> show ?r by blast
  next
    assume "\<exists>d rest. t = ''://'' @ d # rest \<and> d \<noteq> newline"
    then obtain d rest where "t = ''://'' @ d # rest" "d \<noteq> newline" by blast
    with t have "s = ''http'' @ ''://'' @ d # rest" by simp
    with \<open>d \<noteq> newline\<close> show ?r by blast
  qed
next
  assume ?r
  then obtain scheme c rest where s: "s = scheme @ ''://'' @ c # rest"
    and scheme: "scheme = ''http'' \<or> scheme = ''https''" and c: "c \<noteq> newline" by blast
  from scheme show ?l
  proof
    assume "scheme = ''http''"
    with s have "s = ''http'' @ (''://'' @ c # rest)" by simp
    with c show ?l
      unfolding matches_Lit_then [of "''http''"] matches_Opt_Atom_then matches_url_rest by blast
  next
    assume "scheme = ''https''"
    with s have "s = ''http'' @ (CHR ''s'' # ''://'' @ c # rest)" by simp
    with c show ?l
      unfolding matches_Lit_then [of "''http''"] matches_Opt_Atom_then matches_url_rest by blast
  qed
qed

lemma cleanup_pattern_matches:
  "re_match cleanup_pattern line \<noteq> None \<longleftrightarrow> is_record_line line"
proof -
  have "re_match cleanup_pattern line \<noteq> None \<longleftrightarrow> rx_match cleanup_pattern (Map.empty, line) \<noteq> []"
    by (simp add: re_match_def split: list.splits)
  also have "\<dots> \<longleftrightarrow> (\<exists>f t. line = f @ t \<and> f \<noteq> [] \<and> (\<forall>c\<in>set f. c \<noteq> newline)
       \<and> (\<exists>b u. t = b # u \<and> b = CHR ''|''
          \<and> (\<exists>scheme c rest. u = scheme @ ''://'' @ c # rest
                \<and> (scheme = ''http'' \<or> scheme = ''https'') \<and> c \<noteq> newline)))"
    unfolding cleanup_pattern_def matches_LazyPlus_then matches_Atom_then matches_url_scheme
      is_dot_def ..
  also have "\<dots> \<longleftrightarrow> is_record_line line"
  proof
    assume "\<exists>f t. line = f @ t \<and> f \<noteq> [] \<and> (\<forall>c\<in>set f. c \<noteq> newline)
       \<and> (\<exists>b u. t = b # u \<and> b = CHR ''|''
          \<and> (\<exists>scheme c rest. u = scheme @ ''://'' @ c # rest
                \<and> (scheme = ''http'' \<or> scheme = ''https'') \<and> c \<noteq> newline))"
    then show "is_record_line line"
    proof (elim exE conjE)
      fix f t b u scheme c rest
      assume "line = f @ t" "t = b # u" "b = CHR ''|''" "u = scheme @ ''://'' @ c # rest"
        and f: "f \<noteq> []" "\<forall>c\<in>set f. c \<noteq> newline"
        and u: "scheme = ''http'' \<or> scheme = ''https''" "c \<noteq> newline"
      then have "line = f @ ''|'' @ scheme @ ''://'' @ c # rest" by simp
      moreover from f(2) have "newline \<notin> set f" by auto
      ultimately have "line = f @ ''|'' @ scheme @ ''://'' @ c # rest \<and> f \<noteq> []
          \<and> newline \<notin> set f \<and> (scheme = ''http'' \<or> scheme = ''https'') \<and> c \<noteq> newline"
        using f(1) u by (intro conjI)
      then show "is_record_line line"
        unfolding is_record_line_def
        by (rule_tac x = f in exI, rule_tac x = scheme in exI, rule_tac x = c in exI,
            rule_tac x = rest in exI)
    qed
  next
    assume "is_record_line line"
    then obtain f scheme c rest where r: "line = f @ ''|'' @ scheme @ ''://'' @ c # rest"
      "f \<noteq> []" "newline \<notin> set f" "scheme = ''http'' \<or> scheme = ''https''" "c \<noteq> newline"
      unfolding is_record_line_def by (elim exE conjE)
    let ?u = "scheme @ ''://'' @ c # rest"
    from r(1) have "line = f @ (CHR ''|'' # ?u)" by simp
    moreover from r(3) have "\<forall>c\<in>set f. c \<noteq> newline" by auto
    moreover have "\<exists>scheme' c' rest'. ?u = scheme' @ ''://'' @ c' # rest'
        \<and> (scheme' = ''http'' \<or> scheme' = ''https'') \<and> c' \<noteq> newline"
      using r(4,5)
      by (rule_tac x = scheme in exI, rule_tac x = c in exI, rule_tac x = rest in exI) simp
    ultimately have "line = f @ (CHR ''|'' # ?u) \<and> f \<noteq> [] \<and> (\<forall>c\<in>set f. c \<noteq> newline)
       \<and> (\<exists>b u. (CHR ''|'' # ?u) = b # u \<and> b = CHR ''|''
          \<and> (\<exists>scheme c rest. u = scheme @ ''://'' @ c # rest
                \<and> (scheme = ''http'' \<or> scheme = ''https'') \<and> c \<noteq> newline))"
      using r(2) by simp
    then show "\<exists>f t. line = f @ t \<and> f \<noteq> [] \<and> (\<forall>c\<in>set f. c \<noteq> newline)
       \<and> (\<exists>b u. t = b # u \<and> b = CHR ''|''
          \<and> (\<exists>scheme c rest. u = scheme @ ''://'' @ c # rest
                \<and> (scheme = ''http'' \<or> scheme = ''https'') \<and> c \<noteq> newline))"
      by (rule_tac x = f in exI, rule_tac x = "CHR ''|'' # ?u" in exI)
  qed
  finally show ?thesis .
qed

lemmas filter_eval =
  cleanup_output_def re_match_def cleanup_pattern_def strip_def is_space_def is_dot_def
  newline_def

lemma cleanup_output_append:
  "cleanup_output (xs @ ys) = cleanup_output xs @ cleanup_output ys"
  by (simp add: cleanup_output_def)

lemma cleanup_output_single:
  "cleanup_output [line] = (if is_record_line line then [strip line @ [newline]] else [])"
  using cleanup_pattern_matches [of line] by (simp add: cleanup_output_def)

lemma is_record_line_eval: "is_record_line line \<longleftrightarrow> re_match cleanup_pattern line \<noteq> None"
  by (simp only: cleanup_pattern_matches)

text \<open>
  Claim C9, as amended. The companion filter works line by line, in order. It drops
  every line that does not consist of a non-empty field, a vertical bar and an HTTP(S)
  url, possibly followed by more: so the blank line and the line
  \<open>Oops! We ran into some problems.\<close> of the example. For a line of that shape that does
  not contain \<open>into some problems\<close> it writes the line stripped of surrounding
  whitespace: so the record line of the example, which has none, as it is.
\<close>

theorem companion_filter:
  "(\<not> is_record_line line \<longrightarrow> cleanup_output [line] = [])
   \<and> (is_record_line line \<and> \<not> sublist ''into some problems'' line \<longrightarrow>
        cleanup_output [line] = [strip line @ [newline]])
   \<and> cleanup_output (xs @ ys) = cleanup_output xs @ cleanup_output ys
   \<and> cleanup_output
        [''Title|https://example.com/threads/x.1/|8 threadmarks, 24k'' @ [newline],
         [newline],
         ''Oops! We ran into some problems.'' @ [newline]]
     = [''Title|https://example.com/threads/x.1/|8 threadmarks, 24k'' @ [newline]]"
proof -
  have "cleanup_output
        [''Title|https://example.com/threads/x.1/|8 threadmarks, 24k'' @ [newline],
         [newline],
         ''Oops! We ran into some problems.'' @ [newline]]
     = [''Title|https://example.com/threads/x.1/|8 threadmarks, 24k'' @ [newline]]"
    by (simp add: filter_eval)
  then show ?thesis
    using cleanup_output_append [of xs ys] by (simp add: cleanup_output_single)
qed

theorem companion_filter_witness:
  "cleanup_output [[newline]] = []
   \<and> cleanup_output [''Oops! We ran into some problems.'' @ [newline]] = []
   \<and> cleanup_output [''  Title|http://a  '' @ [newline]] = [''Title|http://a'' @ [newline]]
   \<and> cleanup_output ([[newline]] @ [''  Title|http://a  '' @ [newline]])
     = [''Title|http://a'' @ [newline]]"
proof -
  have blank: "\<not> is_record_line [newline]"
    and bare: "\<not> is_record_line (''Oops! We ran into some problems.'' @ [newline])"
    and shaped: "is_record_line (''  Title|http://a  '' @ [newline])"
    by (simp_all add: is_record_line_eval re_match_def cleanup_pattern_def is_dot_def newline_def)
  have clean: "\<not> sublist ''into some problems'' (''  Title|http://a  '' @ [newline])"
    by (simp add: not_sublist_eval newline_def)
  have stripped: "strip (''  Title|http://a  '' @ [newline]) = ''Title|http://a''"
    by (simp add: strip_def is_space_def newline_def)
  from companion_filter [of "[newline]" "[[newline]]" "[''  Title|http://a  '' @ [newline]]"] blank
  have 1: "cleanup_output [[newline]] = []"
    and 4: "cleanup_output ([[newline]] @ [''  Title|http://a  '' @ [newline]])
      = cleanup_output [[newline]] @ cleanup_output [''  Title|http://a  '' @ [newline]]"
    by blast+
  from companion_filter [of "''Oops! We ran into some problems.'' @ [newline]" "[]" "[]"] bare
  have 2: "cleanup_output [''Oops! We ran into some problems.'' @ [newline]] = []"
    by blast
  from companion_filter [of "''  Title|http://a  '' @ [newline]" "[]" "[]"] shaped clean
  have 3: "cleanup_output [''  Title|http://a  '' @ [newline]]
      = [strip (''  Title|http://a  '' @ [newline]) @ [newline]]"
    by blast
  show ?thesis unfolding 4 1 2 3 stripped by simp
qed

text \<open>
  The claim C9 as stated says that the filter writes exactly the lines of that shape,
  and drops a line that contains \<open>into some problems\<close>. A line with surrounding
  whitespace is written without it; a line written can have lost its field, and with
  it the shape; and a line of that shape that contains the phrase is kept.
\<close>

theorem companion_filter_counterexample:
  "cleanup_output [''  Title|http://a  '' @ [newline]] = [''Title|http://a'' @ [newline]]
   \<and> cleanup_output ['' |http://a'' @ [newline]] = [''|http://a'' @ [newline]]
   \<and> cleanup_output [''|http://a'' @ [newline]] = []
   \<and> cleanup_output [''Oops! We ran into some problems.|http://a/|3'' @ [newline]]
     = [''Oops! We ran into some problems.|http://a/|3'' @ [newline]]"
  by (simp add: filter_eval)

end
